theory Spec2Isabelle
  imports Main "HOL-Library.AList" "HOL-Library.Multiset" "HOL-Library.Word"
begin

section \<open>The \<open>sdc\<close> command-line class (\<open>lib/cli.js\<close>)\<close>

text \<open>
  The commands of \<open>lib/cli.js\<close> mutate JavaScript objects in place: \<open>do_machines\<close>
  writes the property \<open>dc\<close> into every record and error object it is handed, and
  \<open>do_profile\<close> writes \<open>curr\<close> and \<open>dcs\<close> into profile objects. Objects are
  therefore kept in an explicit store, and arrays of objects are lists of references, so
  that two references to one object see the same writes.
\<close>

subsection \<open>JavaScript values, objects and the store\<close>

text \<open>
  The values the commands inspect are JSON data. Numbers are restricted to the integers
  from \<open>-2\<^sup>5\<^sup>3\<close> to \<open>2\<^sup>5\<^sup>3 - 1\<close>, which a double holds exactly and prints in
  full: a number is a 54-bit word, read as signed.
  An object is the association list of its properties in the order in which
  \<open>Object.keys\<close> and \<open>JSON.stringify\<close> enumerate them (array indices first, then the
  other names in order of insertion). Assigning to a property overwrites it in place
  when it exists; a new property whose name is not an array index, as \<open>dc\<close>,
  \<open>curr\<close> and \<open>dcs\<close> are, comes last. This is \<^const>\<open>AList.update\<close>. A property
  that is absent reads as \<open>undefined\<close>, here \<open>None\<close>.
\<close>

datatype jsval =
    JString string
  | JNumber "54 word"
  | JBool bool
  | JNull
  | JArray "jsval list"
  | JObject "(string \<times> jsval) list"

type_synonym jsobj = "(string \<times> jsval) list"

type_synonym addr = nat

type_synonym store = "addr \<Rightarrow> jsobj"

definition get_prop :: "jsobj \<Rightarrow> string \<Rightarrow> jsval option" where
  "get_prop obj k = map_of obj k"

definition set_prop :: "string \<Rightarrow> jsval \<Rightarrow> jsobj \<Rightarrow> jsobj" where
  "set_prop k v obj = AList.update k v obj"

text \<open>\<open>o.k = v\<close> for the object at reference \<open>a\<close>.\<close>

definition assign :: "addr \<Rightarrow> string \<Rightarrow> jsval \<Rightarrow> store \<Rightarrow> store" where
  "assign a k v h = h(a := set_prop k v (h a))"

definition empty_store :: store where
  "empty_store = (\<lambda>a. [])"

subsection \<open>Options, errors and observable actions\<close>

text \<open>
  Every command declares the two boolean options \<open>help\<close> and \<open>json\<close>
  (\<open>do_machines.options\<close> and its siblings); they are read as \<open>opts.help\<close> and
  \<open>opts.json\<close>.
\<close>

record opts =
  opt_help :: bool
  opt_json :: bool

text \<open>
  Modelled from the spec: the class \<open>errors.MultiError\<close> is defined in \<open>lib/errors.js\<close>,
  which is not among the sources. Following the specification's \<open>AggregateMultiError\<close>
  ("preserves each constituent DcError"), \<open>new errors.MultiError(errs)\<close> is a composite
  value that keeps the array of errors it was constructed from.
\<close>

datatype multi_error = MultiError (constituents: "addr list")

text \<open>
  The values handed to \<open>callback\<close>: a plain \<open>Error\<close> with its message, one of the
  error objects received from the stream (by reference), or a \<open>MultiError\<close>.
\<close>

datatype js_err =
    Error string
  | Err_ref addr
  | Err_multi multi_error

text \<open>
  What a command does to the outside world, in order: the call of \<open>this.do_help\<close>, a read
  of the lazily constructed \<open>this.sdc\<close> (the only access to configuration state), the
  query \<open>listMachines()\<close>, printing \<open>JSON.stringify(rows, null, 4)\<close>, the call of
  \<open>common.tabulate(rows, {columns, sort, validFields})\<close>, an uncaught \<open>TypeError\<close>, and
  the call of \<open>callback\<close>. Printing and tabulating are handed the contents the objects
  have at that moment, in the order of the array at that moment; what \<open>common.tabulate\<close>
  (\<open>lib/common.js\<close>, not among the sources) does with them is outside the model.
\<close>

datatype action =
    Do_help string "string list"
  | Get_sdc
  | ListMachines
  | P_json "jsobj list"
  | Tabulate "jsobj list" string string string
  | Throw_TypeError
  | Callback "js_err option"

subsection \<open>\<open>do_machines\<close>: the consumer of the machine stream\<close>

text \<open>
  The emitter returned by \<open>this.sdc.listMachines()\<close> raises \<open>'data'\<close> with a
  datacenter name and an array of records, \<open>'dcError'\<close> with a datacenter name and an
  error object, and \<open>'end'\<close>. (The specification calls them \<open>RecordBatch\<close>, \<open>Failure\<close>
  and \<open>Done\<close>.) The payload types are parameters: the consumer receives references.
\<close>

datatype ('r, 'e) event =
    Data string 'r
  | DcError string 'e
  | End

type_synonym js_event = "(addr list, addr) event"

text \<open>The variables the three handlers close over, plus the store and the actions so far.\<close>

record consumer =
  heap :: store
  machines :: "addr list"
  errs :: "addr list"
  trace :: "action list"

text \<open>
  The \<open>'data'\<close> handler:
  \<^verbatim>\<open>for (var i = 0; i < dcMachines.length; i++) {
    dcMachines[i].dc = dc;
    machines.push(dcMachines[i]);
}\<close>
\<close>

fun on_data :: "string \<Rightarrow> addr list \<Rightarrow> consumer \<Rightarrow> consumer" where
  "on_data dc [] s = s"
| "on_data dc (m # dcMachines) s =
     on_data dc dcMachines
       (s\<lparr>heap := assign m ''dc'' (JString dc) (heap s), machines := machines s @ [m]\<rparr>)"

text \<open>The \<open>'dcError'\<close> handler: \<^verbatim>\<open>dcErr.dc = dc; errs.push(dcErr);\<close>\<close>

definition on_dcError :: "string \<Rightarrow> addr \<Rightarrow> consumer \<Rightarrow> consumer" where
  "on_dcError dc dcErr s =
     s\<lparr>heap := assign dcErr ''dc'' (JString dc) (heap s), errs := errs s @ [dcErr]\<rparr>"

text \<open>
  The \<open>'end'\<close> handler renders \<open>machines\<close> (as JSON under \<open>opts.json\<close>, as a table
  otherwise) and then calls back with no error, with the only error, or with a
  \<open>MultiError\<close> of all of them.
\<close>

definition render :: "opts \<Rightarrow> jsobj list \<Rightarrow> action" where
  "render opts rows =
     (if opt_json opts then P_json rows
      else Tabulate rows ''dc,id,name,state,created'' ''created''
             ''dc,id,name,type,state,image,package,memory,disk,created,updated,compute_node,primaryIp'')"

definition end_err :: "addr list \<Rightarrow> js_err option" where
  "end_err es =
     (if length es = 1 then Some (Err_ref (es ! 0))
      else if length es > 1 then Some (Err_multi (MultiError es))
      else None)"

definition on_end :: "opts \<Rightarrow> consumer \<Rightarrow> consumer" where
  "on_end opts s =
     s\<lparr>trace := trace s @ [render opts (map (heap s) (machines s)), Callback (end_err (errs s))]\<rparr>"

fun handle :: "opts \<Rightarrow> consumer \<Rightarrow> js_event \<Rightarrow> consumer" where
  "handle opts s (Data dc dcMachines) = on_data dc dcMachines s"
| "handle opts s (DcError dc dcErr) = on_dcError dc dcErr s"
| "handle opts s End = on_end opts s"

text \<open>
  \<open>'too many args: ' + args\<close> converts the array with \<open>Array.prototype.toString\<close>,
  which joins the elements with commas.
\<close>

fun join_strings :: "string list \<Rightarrow> string" where
  "join_strings [] = []"
| "join_strings [x] = x"
| "join_strings (x # y # ys) = x @ '','' @ join_strings (y # ys)"

definition too_many_args :: "string list \<Rightarrow> action" where
  "too_many_args args = Callback (Some (Error (''too many args: '' @ join_strings args)))"

text \<open>
  \<open>do_machines\<close> itself. The events the emitter raises after the handlers are registered
  are the argument \<open>evs\<close>; they are consumed only when the command gets as far as
  subscribing. The result is the actions performed and the store left behind.
\<close>

definition do_machines ::
  "string \<Rightarrow> opts \<Rightarrow> string list \<Rightarrow> store \<Rightarrow> js_event list \<Rightarrow> consumer" where
  "do_machines subcmd opts args h evs =
     (if opt_help opts then
        \<lparr>heap = h, machines = [], errs = [], trace = [Do_help ''help'' [subcmd]]\<rparr>
      else if length args > 1 then
        \<lparr>heap = h, machines = [], errs = [], trace = [too_many_args args]\<rparr>
      else
        foldl (handle opts)
          \<lparr>heap = h, machines = [], errs = [], trace = [Get_sdc, ListMachines]\<rparr> evs)"

subsection \<open>Conversions of JavaScript values\<close>

text \<open>\<open>ToBoolean\<close>, as used by the conditional operator.\<close>

fun truthy :: "jsval option \<Rightarrow> bool" where
  "truthy None = False"
| "truthy (Some JNull) = False"
| "truthy (Some (JBool b)) = b"
| "truthy (Some (JNumber n)) = (n \<noteq> 0)"
| "truthy (Some (JString s)) = (s \<noteq> [])"
| "truthy (Some (JArray xs)) = True"
| "truthy (Some (JObject ps)) = True"

text \<open>
  \<open>===\<close> between a property of a freshly copied object and another value: primitives
  compare by value, \<open>undefined\<close> equals only \<open>undefined\<close>, and an array or object of
  the copy is never identical to anything else.
\<close>

fun strict_eq :: "jsval option \<Rightarrow> jsval option \<Rightarrow> bool" where
  "strict_eq None None = True"
| "strict_eq (Some (JString s)) (Some (JString t)) = (s = t)"
| "strict_eq (Some (JNumber m)) (Some (JNumber n)) = (m = n)"
| "strict_eq (Some (JBool a)) (Some (JBool b)) = (a = b)"
| "strict_eq (Some JNull) (Some JNull) = True"
| "strict_eq v w = False"

text \<open>
  The decimal numeral of an integer, as \<open>Number.prototype.toString\<close> prints the
  integers of the range above.
\<close>

definition digit_char :: "nat \<Rightarrow> char" where
  "digit_char d = char_of (of_char CHR ''0'' + d :: nat)"

function decimal :: "int \<Rightarrow> string" where
  "decimal n = (if n < 10 then [] else decimal (n div 10)) @ [digit_char (nat (n mod 10))]"
  by pat_completeness auto
termination
  by (relation "measure nat") auto

definition number_to_string :: "int \<Rightarrow> string" where
  "number_to_string i = (if 0 \<le> i then decimal i else CHR ''-'' # decimal (- i))"

text \<open>
  \<open>ToString\<close>, and \<open>Array.prototype.join(',')\<close>, where \<open>null\<close> elements become the
  empty string.
\<close>

fun js_to_string :: "jsval \<Rightarrow> string" where
  "js_to_string (JString s) = s"
| "js_to_string (JNumber n) = number_to_string (sint n)"
| "js_to_string (JBool b) = (if b then ''true'' else ''false'')"
| "js_to_string JNull = ''null''"
| "js_to_string (JArray xs) =
     join_strings (map (\<lambda>x. if x = JNull then [] else js_to_string x) xs)"
| "js_to_string (JObject ps) = ''[object Object]''"

definition js_join :: "jsval list \<Rightarrow> string" where
  "js_join xs = join_strings (map (\<lambda>x. if x = JNull then [] else js_to_string x) xs)"

subsection \<open>\<open>do_profile\<close>\<close>

text \<open>
  What the commands read from \<open>this.sdc\<close>: the array \<open>profiles\<close> of profile objects,
  the current \<open>profile\<close>, and the object \<open>config.dcs\<close> mapping datacenter names to
  URLs. (The class \<open>SDC\<close> itself, \<open>lib/sdc.js\<close>, is not among the sources.)
\<close>

record sdc =
  profiles :: "addr list"
  profile :: addr
  config_dcs :: jsobj

text \<open>
  Modelled from the spec: \<open>common.deepObjCopy\<close> is defined in \<open>lib/common.js\<close>, which is
  not among the sources. As its name and its use say, it returns a deep copy: a new array
  of new objects, the \<open>i\<close>-th with the contents of the \<open>i\<close>-th original. New objects are
  allocated from \<open>brk\<close> upwards, the boundary above every reference in use.
\<close>

definition deepObjCopy :: "addr list \<Rightarrow> store \<Rightarrow> addr \<Rightarrow> addr list \<times> store \<times> addr" where
  "deepObjCopy refs h brk =
     ([brk ..< brk + length refs],
      (\<lambda>a. if brk \<le> a \<and> a < brk + length refs then h (refs ! (a - brk)) else h a),
      brk + length refs)"

text \<open>
  \<open>(profs[i].dcs ? profs[i].dcs : ['all']).join(',')\<close>: a falsy \<open>dcs\<close> is replaced by
  \<open>['all']\<close>; a truthy value that is not an array has no \<open>join\<close> method and the call
  throws a \<open>TypeError\<close>.
\<close>

datatype exn = TypeError

definition join_dcs :: "jsval option \<Rightarrow> exn + string" where
  "join_dcs v =
     (case (if truthy v then v else Some (JArray [JString ''all''])) of
        Some (JArray xs) \<Rightarrow> Inr (js_join xs)
      | _ \<Rightarrow> Inl TypeError)"

text \<open>
  The loop over \<open>profs\<close>:
  \<^verbatim>\<open>profs[i].curr = (profs[i].name === currProfileName ? '*' : ' ');
profs[i].dcs = (profs[i].dcs ? profs[i].dcs : ['all']).join(',');\<close>
  It returns the store, and the exception if one was thrown.
\<close>

fun annotate :: "jsval option \<Rightarrow> addr list \<Rightarrow> store \<Rightarrow> store \<times> exn option" where
  "annotate currProfileName [] h = (h, None)"
| "annotate currProfileName (p # profs) h =
     (let h1 = assign p ''curr''
                 (JString (if strict_eq (get_prop (h p) ''name'') currProfileName
                           then ''*'' else '' '')) h
      in case join_dcs (get_prop (h1 p) ''dcs'') of
           Inl e \<Rightarrow> (h1, Some e)
         | Inr joined \<Rightarrow> annotate currProfileName profs (assign p ''dcs'' (JString joined) h1))"

definition render_profiles :: "opts \<Rightarrow> jsobj list \<Rightarrow> action" where
  "render_profiles opts rows =
     (if opt_json opts then P_json rows
      else Tabulate rows ''curr,name,dcs,user,keyId'' ''name,user'' ''curr,name,dcs,user,keyId'')"

text \<open>\<open>do_profile\<close>: the actions performed and the store left behind.\<close>

definition do_profile ::
  "string \<Rightarrow> opts \<Rightarrow> string list \<Rightarrow> sdc \<Rightarrow> store \<Rightarrow> addr \<Rightarrow> action list \<times> store" where
  "do_profile subcmd opts args this_sdc h brk =
     (if opt_help opts then ([Do_help ''help'' [subcmd]], h)
      else if length args > 1 then ([too_many_args args], h)
      else
        (case deepObjCopy (profiles this_sdc) h brk of (profs, h1, brk1) \<Rightarrow>
           let currProfileName = get_prop (h1 (profile this_sdc)) ''name'' in
           (case annotate currProfileName profs h1 of
              (h2, Some e) \<Rightarrow> ([Get_sdc, Get_sdc, Throw_TypeError], h2)
            | (h2, None) \<Rightarrow>
                ([Get_sdc, Get_sdc, render_profiles opts (map h2 profs), Callback None], h2))))"

text \<open>
  The annotation of one profile in the words of the claim about \<open>do_profile\<close>: the
  \<open>curr\<close> marker is added and \<open>dcs\<close> is rewritten to the joined string, an absent
  \<open>dcs\<close> giving \<open>all\<close>. It is compared with the loop above.
\<close>

definition annotated_profile :: "jsval option \<Rightarrow> jsobj \<Rightarrow> exn + jsobj" where
  "annotated_profile currProfileName prof =
     (case join_dcs (get_prop prof ''dcs'') of
        Inl e \<Rightarrow> Inl e
      | Inr joined \<Rightarrow>
          Inr (set_prop ''dcs'' (JString joined)
                 (set_prop ''curr''
                    (JString (if strict_eq (get_prop prof ''name'') currProfileName then ''*'' else '' ''))
                    prof)))"

text \<open>A store with two stored profiles, for concrete runs of \<open>do_profile\<close>.\<close>

definition example_profiles :: store where
  "example_profiles =
     empty_store
       (0 := [(''name'', JString ''env''),
              (''dcs'', JArray [JString ''us-west-1'', JString ''us-east-1'']),
              (''user'', JString ''bob'')],
        1 := [(''name'', JString ''dev''), (''user'', JString ''alice'')])"

subsection \<open>\<open>do_dcs\<close>\<close>

text \<open>
  \<^verbatim>\<open>Object.keys(dcs).map(function (n) { return {name: n, url: dcs[n]}; })\<close>
  The names of \<open>dcs\<close> are taken in the order of the association list, which is the
  order of \<open>Object.keys\<close>.
\<close>

definition dcsArray :: "jsobj \<Rightarrow> jsobj list" where
  "dcsArray dcs =
     map (\<lambda>n. case get_prop dcs n of
                 Some url \<Rightarrow> [(''name'', JString n), (''url'', url)]
               | None \<Rightarrow> [(''name'', JString n)])
       (map fst dcs)"

definition render_dcs :: "opts \<Rightarrow> jsobj list \<Rightarrow> action" where
  "render_dcs opts rows =
     (if opt_json opts then P_json rows else Tabulate rows ''name,url'' ''name'' ''name,url'')"

definition do_dcs :: "string \<Rightarrow> opts \<Rightarrow> string list \<Rightarrow> sdc \<Rightarrow> action list" where
  "do_dcs subcmd opts args this_sdc =
     (if opt_help opts then [Do_help ''help'' [subcmd]]
      else if length args > 1 then [too_many_args args]
      else [Get_sdc, render_dcs opts (dcsArray (config_dcs this_sdc)), Callback None])"

subsection \<open>The fan-out aggregator behind \<open>listMachines\<close>\<close>

text \<open>
  Modelled from the spec: \<open>SDC.prototype.listMachines\<close> is defined in \<open>lib/sdc.js\<close>,
  which is not among the sources. The per-DC client of section 6 returns a complete list
  of records or an error for one datacenter; a unit of work that throws instead is the
  third case.
\<close>

datatype ('r, 'e) dc_result = Returned 'r | Failed 'e | Threw 'e

text \<open>
  Modelled from the spec: the outcome event of section 4.1 for a finished unit of work,
  "on success, emit RecordBatch; on failure, emit Failure", a thrown fault being
  converted into a \<open>Failure\<close> for that datacenter.
\<close>

fun outcome :: "string \<Rightarrow> ('r, 'e) dc_result \<Rightarrow> ('r, 'e) event" where
  "outcome dc (Returned records) = Data dc records"
| "outcome dc (Failed err) = DcError dc err"
| "outcome dc (Threw err) = DcError dc err"

text \<open>
  Modelled from the spec: the state of one run of the aggregator of section 4.1: the
  datacenters whose unit of work is still in flight, the shared "outstanding" counter,
  and the events emitted so far.
\<close>

record ('r, 'e) aggregator =
  pending :: "string list"
  outstanding :: nat
  emitted :: "('r, 'e) event list"

text \<open>
  Modelled from the spec: \<open>run(dcs, query)\<close> of section 4.1 launches one unit of work
  per datacenter; "if \<open>dcs\<close> is empty, the operation completes immediately with
  \<open>Done\<close>". The query is fixed inside the client.
\<close>

definition run :: "string list \<Rightarrow> ('r, 'e) aggregator" where
  "run dcs =
     \<lparr>pending = dcs, outstanding = length dcs, emitted = (if dcs = [] then [End] else [])\<rparr>"

text \<open>
  Modelled from the spec: the completion of the unit of work of datacenter \<open>dc\<close>,
  section 4.1: emit its outcome, "decrement a shared outstanding counter after each unit
  completes; when the counter reaches zero, emit \<open>Done\<close>". A completion is one atomic
  step (the join mechanism of section 5 allows no lost update), and a datacenter with no
  unit in flight completes nothing.
\<close>

definition unit_completes ::
  "(string \<Rightarrow> ('r, 'e) dc_result) \<Rightarrow> ('r, 'e) aggregator \<Rightarrow> string \<Rightarrow> ('r, 'e) aggregator" where
  "unit_completes client a dc =
     (if dc \<in> set (pending a) then
        let n = outstanding a - 1 in
        \<lparr>pending = remove1 dc (pending a),
         outstanding = n,
         emitted = emitted a @ [outcome dc (client dc)] @ (if n = 0 then [End] else [])\<rparr>
      else a)"

text \<open>
  Modelled from the spec: a run of the aggregator under a schedule, the order in which
  the units of work complete ("in any interleaving"). The run is complete when no unit
  is in flight.
\<close>

definition run_schedule ::
  "(string \<Rightarrow> ('r, 'e) dc_result) \<Rightarrow> string list \<Rightarrow> string list \<Rightarrow> ('r, 'e) aggregator" where
  "run_schedule client dcs schedule = foldl (unit_completes client) (run dcs) schedule"

definition complete :: "('r, 'e) aggregator \<Rightarrow> bool" where
  "complete a = (pending a = [])"

text \<open>
  A per-DC client for concrete runs, after scenario B of section 8 of the specification:
  \<open>us-east\<close> returns two records, \<open>us-west\<close> fails, any other datacenter throws.
\<close>

definition scenario_client :: "string \<Rightarrow> (addr list, addr) dc_result" where
  "scenario_client dc =
     (if dc = ''us-east'' then Returned [0, 1]
      else if dc = ''us-west'' then Failed 2
      else Threw 3)"

subsection \<open>Observations on event streams\<close>

text \<open>The datacenter an outcome event belongs to; \<open>'end'\<close> belongs to none.\<close>

fun event_dc :: "('r, 'e) event \<Rightarrow> string option" where
  "event_dc (Data dc records) = Some dc"
| "event_dc (DcError dc err) = Some dc"
| "event_dc End = None"

fun is_data :: "('r, 'e) event \<Rightarrow> bool" where
  "is_data (Data dc records) = True"
| "is_data ev = False"

fun is_failure :: "('r, 'e) event \<Rightarrow> bool" where
  "is_failure (DcError dc err) = True"
| "is_failure ev = False"

text \<open>All records of all \<open>'data'\<close> events, and all errors of all \<open>'dcError'\<close> events, in order of arrival.\<close>

fun records_of :: "js_event list \<Rightarrow> addr list" where
  "records_of [] = []"
| "records_of (Data dc dcMachines # evs) = dcMachines @ records_of evs"
| "records_of (ev # evs) = records_of evs"

fun failures_of :: "js_event list \<Rightarrow> addr list" where
  "failures_of [] = []"
| "failures_of (DcError dc dcErr # evs) = dcErr # failures_of evs"
| "failures_of (ev # evs) = failures_of evs"

text \<open>
  The objects a stream delivers, each with the datacenter it is delivered for. A stream
  is \<open>unshared\<close> when no object is delivered for two different datacenters: the records
  and errors of a datacenter are objects of their own.
\<close>

fun deliveries :: "js_event list \<Rightarrow> (addr \<times> string) list" where
  "deliveries [] = []"
| "deliveries (Data dc dcMachines # evs) = map (\<lambda>m. (m, dc)) dcMachines @ deliveries evs"
| "deliveries (DcError dc dcErr # evs) = (dcErr, dc) # deliveries evs"
| "deliveries (End # evs) = deliveries evs"

definition unshared :: "js_event list \<Rightarrow> bool" where
  "unshared evs =
     (\<forall>x \<in> set (deliveries evs). \<forall>y \<in> set (deliveries evs). fst x = fst y \<longrightarrow> snd x = snd y)"

text \<open>
  The contents of the object at a reference once a stream has been consumed, in terms
  of the store \<open>h\<close> the run started from: the contents it had in \<open>h\<close>, with \<open>dc\<close>
  set to the datacenter of its last delivery if it was delivered at all.
\<close>

definition row_of :: "store \<Rightarrow> js_event list \<Rightarrow> addr \<Rightarrow> jsobj" where
  "row_of h evs a =
     (case map_of (rev (deliveries evs)) a of
        None \<Rightarrow> h a
      | Some dc \<Rightarrow> set_prop ''dc'' (JString dc) (h a))"

text \<open>
  The records of a stream as values, in order of arrival: the contents each record had
  in the store \<open>h\<close> the run started from, with \<open>dc\<close> set to the datacenter of the
  \<open>'data'\<close> event that carried it.
\<close>

fun tagged_records :: "store \<Rightarrow> js_event list \<Rightarrow> jsobj list" where
  "tagged_records h [] = []"
| "tagged_records h (Data dc dcMachines # evs) =
     map (\<lambda>m. set_prop ''dc'' (JString dc) (h m)) dcMachines @ tagged_records h evs"
| "tagged_records h (ev # evs) = tagged_records h evs"

text \<open>A store with the machines of two datacenters, for concrete runs of \<open>do_machines\<close>.\<close>

definition example_machines :: store where
  "example_machines =
     empty_store
       (0 := [(''id'', JString ''e91897cf''), (''name'', JString ''web0''), (''state'', JString ''running'')],
        1 := [(''id'', JString ''0a5c1f2b''), (''name'', JString ''db0''), (''state'', JString ''stopped'')],
        2 := [(''id'', JString ''e91897cf''), (''name'', JString ''web0''), (''dc'', JString ''stale'')],
        5 := [(''message'', JString ''connect ETIMEDOUT'')])"

text \<open>The \<open>dc\<close> property of the object at a reference.\<close>

definition dc_tag :: "store \<Rightarrow> addr \<Rightarrow> jsval option" where
  "dc_tag h a = get_prop (h a) ''dc''"

section \<open>Properties\<close>

subsection \<open>Objects and the handlers of \<open>do_machines\<close>\<close>

lemma get_set_prop: "get_prop (set_prop k v obj) k = Some v"
  by (simp add: get_prop_def set_prop_def update_conv')

lemma set_prop_twice: "set_prop k v (set_prop k w obj) = set_prop k v obj"
  by (simp add: set_prop_def)

lemma on_data_machines: "machines (on_data dc ms s) = machines s @ ms"
  by (induction ms arbitrary: s) simp_all

lemma on_data_errs: "errs (on_data dc ms s) = errs s"
  by (induction ms arbitrary: s) simp_all

lemma on_data_trace: "trace (on_data dc ms s) = trace s"
  by (induction ms arbitrary: s) simp_all

lemma on_data_heap:
  "heap (on_data dc ms s) a =
     (if a \<in> set ms then set_prop ''dc'' (JString dc) (heap s a) else heap s a)"
  by (induction ms arbitrary: s) (auto simp: assign_def set_prop_twice)

lemma consume_machines:
  "machines (foldl (handle opts) s evs) = machines s @ records_of evs"
proof (induction evs arbitrary: s)
  case Nil
  show ?case by simp
next
  case (Cons ev evs)
  show ?case
    by (cases ev) (simp_all add: Cons.IH on_data_machines on_dcError_def on_end_def)
qed

lemma consume_errs:
  "errs (foldl (handle opts) s evs) = errs s @ failures_of evs"
proof (induction evs arbitrary: s)
  case Nil
  show ?case by simp
next
  case (Cons ev evs)
  show ?case
    by (cases ev) (simp_all add: Cons.IH on_data_errs on_dcError_def on_end_def)
qed

lemma consume_trace:
  "End \<notin> set evs \<Longrightarrow> trace (foldl (handle opts) s evs) = trace s"
proof (induction evs arbitrary: s)
  case Nil
  show ?case by simp
next
  case (Cons ev evs)
  then show ?case
    by (cases ev) (simp_all add: on_data_trace on_dcError_def)
qed

lemma handle_heap:
  "heap (handle opts s ev) a =
     (case map_of (rev (deliveries [ev])) a of
        None \<Rightarrow> heap s a
      | Some d \<Rightarrow> set_prop ''dc'' (JString d) (heap s a))"
proof (cases ev)
  case (Data dc ms)
  have "map_of (rev (map (\<lambda>m. (m, dc)) ms)) a = (if a \<in> set ms then Some dc else None)"
    by (induction ms) (auto simp: map_add_def split: option.splits)
  then show ?thesis using Data by (simp add: on_data_heap)
next
  case (DcError dc e)
  then show ?thesis by (simp add: on_dcError_def assign_def)
next
  case End
  then show ?thesis by (simp add: on_end_def)
qed

lemma deliveries_Cons: "deliveries (ev # evs) = deliveries [ev] @ deliveries evs"
  by (cases ev) simp_all

lemma consume_heap:
  "heap (foldl (handle opts) s evs) a =
     (case map_of (rev (deliveries evs)) a of
        None \<Rightarrow> heap s a
      | Some d \<Rightarrow> set_prop ''dc'' (JString d) (heap s a))"
proof (induction evs arbitrary: s)
  case Nil
  show ?case by simp
next
  case (Cons ev evs)
  have "heap (foldl (handle opts) s (ev # evs)) a =
        (case map_of (rev (deliveries evs)) a of
           None \<Rightarrow> heap (handle opts s ev) a
         | Some d \<Rightarrow> set_prop ''dc'' (JString d) (heap (handle opts s ev) a))"
    by (simp add: Cons.IH)
  also have "\<dots> = (case map_of (rev (deliveries (ev # evs))) a of
        None \<Rightarrow> heap s a
      | Some d \<Rightarrow> set_prop ''dc'' (JString d) (heap s a))"
    unfolding deliveries_Cons [of ev evs] rev_append map_of_append handle_heap
    by (simp add: map_add_def set_prop_twice split: option.splits)
  finally show ?case .
qed

lemma unshared_last:
  assumes "unshared evs" and "(a, d) \<in> set (deliveries evs)"
  shows "map_of (rev (deliveries evs)) a = Some d"
proof -
  from assms(2) have "a \<in> fst ` set (rev (deliveries evs))" by force
  then obtain d' where d': "map_of (rev (deliveries evs)) a = Some d'"
    by (metis domD dom_map_of_conv_image_fst)
  then have "(a, d') \<in> set (deliveries evs)"
    by (metis map_of_SomeD set_rev)
  with assms have "d' = d" unfolding unshared_def by force
  with d' show ?thesis by simp
qed

lemma consume_tag:
  assumes "unshared evs" and "(a, d) \<in> set (deliveries evs)"
  shows "dc_tag (heap (foldl (handle opts) s evs)) a = Some (JString d)"
  by (simp add: dc_tag_def consume_heap unshared_last [OF assms] get_set_prop)

lemma Data_deliveries:
  "Data dc ms \<in> set evs \<Longrightarrow> m \<in> set ms \<Longrightarrow> (m, dc) \<in> set (deliveries evs)"
  by (induction evs rule: deliveries.induct) auto

lemma DcError_deliveries:
  "DcError dc e \<in> set evs \<Longrightarrow> (e, dc) \<in> set (deliveries evs)"
  by (induction evs rule: deliveries.induct) auto

lemma Data_records_of:
  "Data dc ms \<in> set evs \<Longrightarrow> m \<in> set ms \<Longrightarrow> m \<in> set (records_of evs)"
  by (induction evs rule: records_of.induct) auto

lemma do_machines_subscribed:
  "\<not> opt_help opts \<Longrightarrow> length args \<le> 1 \<Longrightarrow>
   do_machines subcmd opts args h evs =
     foldl (handle opts) \<lparr>heap = h, machines = [], errs = [], trace = [Get_sdc, ListMachines]\<rparr> evs"
  by (simp add: do_machines_def)

lemma do_machines_trace:
  assumes "\<not> opt_help opts" and "length args \<le> 1" and "End \<notin> set outs"
  shows "trace (do_machines subcmd opts args h (outs @ [End])) =
           [Get_sdc, ListMachines,
            render opts (map (heap (do_machines subcmd opts args h (outs @ [End]))) (records_of outs)),
            Callback (end_err (failures_of outs))]"
  using assms
  by (simp add: do_machines_subscribed on_end_def consume_trace consume_machines consume_errs)

lemma do_machines_heap_End:
  "heap (do_machines subcmd opts args h (outs @ [End])) = heap (do_machines subcmd opts args h outs)"
  by (simp add: do_machines_def on_end_def)

lemma failures_of_filter: "failures_of (filter is_failure evs) = failures_of evs"
  by (induction evs rule: failures_of.induct) simp_all

lemma length_failures_of: "length (failures_of evs) = length (filter is_failure evs)"
  by (induction evs rule: failures_of.induct) simp_all

lemma records_of_filter: "records_of (filter is_data evs) = records_of evs"
  by (induction evs rule: records_of.induct) simp_all

lemma failures_of_only_data: "failures_of (filter is_data evs) = []"
  by (induction evs rule: failures_of.induct) simp_all

lemma deliveries_filter_subset: "set (deliveries (filter P evs)) \<subseteq> set (deliveries evs)"
  by (induction evs rule: deliveries.induct) auto

lemma unshared_filter: "unshared evs \<Longrightarrow> unshared (filter P evs)"
  unfolding unshared_def using deliveries_filter_subset [of P evs] by blast

lemma records_of_delivered:
  "m \<in> set (records_of evs) \<Longrightarrow> \<exists>dc. (m, dc) \<in> set (deliveries (filter is_data evs))"
  by (induction evs rule: records_of.induct) auto

lemma unshared_heap_filter:
  assumes "unshared outs" and "m \<in> set (records_of outs)"
  shows "heap (foldl (handle opts) s (filter is_data outs)) m = heap (foldl (handle opts) s outs) m"
proof -
  obtain dc where dc: "(m, dc) \<in> set (deliveries (filter is_data outs))"
    using records_of_delivered [OF assms(2)] by blast
  then have dc': "(m, dc) \<in> set (deliveries outs)"
    using deliveries_filter_subset by blast
  show ?thesis
    by (simp add: consume_heap unshared_last [OF assms(1) dc']
        unshared_last [OF unshared_filter [OF assms(1)] dc])
qed

lemma consume_row_of:
  "heap (foldl (handle opts) s evs) a = row_of (heap s) evs a"
  by (simp only: consume_heap row_of_def)

lemma do_machines_rows:
  assumes "\<not> opt_help opts" and "length args \<le> 1"
  shows "map (heap (do_machines subcmd opts args h (outs @ [End]))) ms = map (row_of h outs) ms"
  using assms by (simp add: do_machines_subscribed on_end_def consume_row_of)

lemma tagged_records_map:
  "\<forall>x \<in> set (deliveries evs). H (fst x) = set_prop ''dc'' (JString (snd x)) (h (fst x)) \<Longrightarrow>
   map H (records_of evs) = tagged_records h evs"
  by (induction evs rule: records_of.induct) (auto simp: ball_Un)

lemma unshared_rows:
  assumes "unshared evs"
  shows "map (row_of h evs) (records_of evs) = tagged_records h evs"
proof (rule tagged_records_map, rule ballI)
  fix x
  assume "x \<in> set (deliveries evs)"
  then have "(fst x, snd x) \<in> set (deliveries evs)" by simp
  from unshared_last [OF assms this]
  show "row_of h evs (fst x) = set_prop ''dc'' (JString (snd x)) (h (fst x))"
    by (simp add: row_of_def)
qed

lemma tagged_records_filter: "tagged_records h (filter is_data evs) = tagged_records h evs"
  by (induction evs rule: tagged_records.induct) simp_all

subsection \<open>Tagging of records\<close>

text \<open>
  C2. Once the \<open>'data'\<close> handler has run for \<open>(dc, dcMachines)\<close>, every record of
  \<open>dcMachines\<close> is in the accumulated array \<open>machines\<close> and its \<open>dc\<close> property is
  that datacenter's name. The same holds at the end of the whole run, for every \<open>'data'\<close>
  event of the stream, when no object is delivered for two different datacenters. (The
  tag is written into the object itself, so an object delivered again for another
  datacenter would carry the later name.)
\<close>

theorem data_records_tagged:
  "(\<forall>m \<in> set dcMachines.
      m \<in> set (machines (on_data dc dcMachines s)) \<and>
      dc_tag (heap (on_data dc dcMachines s)) m = Some (JString dc)) \<and>
   (\<not> opt_help opts \<longrightarrow> length args \<le> 1 \<longrightarrow> unshared evs \<longrightarrow> Data dc dcMachines \<in> set evs \<longrightarrow>
      (\<forall>m \<in> set dcMachines.
         m \<in> set (machines (do_machines subcmd opts args h evs)) \<and>
         dc_tag (heap (do_machines subcmd opts args h evs)) m = Some (JString dc)))"
proof (intro conjI impI ballI)
  fix m
  assume "m \<in> set dcMachines"
  then show "m \<in> set (machines (on_data dc dcMachines s))"
    by (simp add: on_data_machines)
  show "dc_tag (heap (on_data dc dcMachines s)) m = Some (JString dc)"
    using \<open>m \<in> set dcMachines\<close> by (simp add: dc_tag_def on_data_heap get_set_prop)
next
  fix m
  assume a: "\<not> opt_help opts" "length args \<le> 1" "unshared evs" "Data dc dcMachines \<in> set evs"
    "m \<in> set dcMachines"
  then show "m \<in> set (machines (do_machines subcmd opts args h evs))"
    by (simp add: do_machines_subscribed consume_machines Data_records_of)
  show "dc_tag (heap (do_machines subcmd opts args h evs)) m = Some (JString dc)"
    using a by (simp add: do_machines_subscribed consume_tag Data_deliveries)
qed

theorem data_records_tagged_witness:
  "\<not> opt_help \<lparr>opt_help = False, opt_json = True\<rparr> \<and> length ([] :: string list) \<le> 1 \<and>
   unshared [Data ''us-west'' [0, 1], DcError ''us-east'' 2, Data ''eu'' [3], End] \<and>
   Data ''us-west'' [0, 1] \<in>
     set ([Data ''us-west'' [0, 1], DcError ''us-east'' 2, Data ''eu'' [3], End] :: js_event list) \<and>
   (1 :: addr) \<in> set [0, 1] \<and>
   1 \<in> set (machines (on_data ''us-west'' [0, 1]
                 \<lparr>heap = empty_store, machines = [7], errs = [], trace = [Get_sdc, ListMachines]\<rparr>)) \<and>
   dc_tag (heap (on_data ''us-west'' [0, 1]
                 \<lparr>heap = empty_store, machines = [7], errs = [], trace = [Get_sdc, ListMachines]\<rparr>)) 1 =
     Some (JString ''us-west'') \<and>
   1 \<in> set (machines (do_machines ''machines'' \<lparr>opt_help = False, opt_json = True\<rparr> [] empty_store
              [Data ''us-west'' [0, 1], DcError ''us-east'' 2, Data ''eu'' [3], End])) \<and>
   dc_tag (heap (do_machines ''machines'' \<lparr>opt_help = False, opt_json = True\<rparr> [] empty_store
              [Data ''us-west'' [0, 1], DcError ''us-east'' 2, Data ''eu'' [3], End])) 1 =
     Some (JString ''us-west'') \<and>
   machines (do_machines ''machines'' \<lparr>opt_help = False, opt_json = True\<rparr> [] empty_store
              [Data ''us-west'' [0, 1], DcError ''us-east'' 2, Data ''eu'' [3], End]) = [0, 1, 3]"
proof -
  have h1: "\<not> opt_help \<lparr>opt_help = False, opt_json = True\<rparr>" by simp
  have h2: "length ([] :: string list) \<le> 1" by simp
  have h3: "unshared [Data ''us-west'' [0, 1], DcError ''us-east'' 2, Data ''eu'' [3], End]"
    by (simp add: unshared_def)
  have h4: "Data ''us-west'' [0, 1] \<in>
     set ([Data ''us-west'' [0, 1], DcError ''us-east'' 2, Data ''eu'' [3], End] :: js_event list)"
    by simp
  have h5: "(1 :: addr) \<in> set [0, 1]" by simp
  have m: "machines (do_machines ''machines'' \<lparr>opt_help = False, opt_json = True\<rparr> [] empty_store
              [Data ''us-west'' [0, 1], DcError ''us-east'' 2, Data ''eu'' [3], End]) = [0, 1, 3]"
    by (simp add: do_machines_def on_dcError_def on_end_def)
  from h1 h2 h3 h4 h5 m
    data_records_tagged [of "[0, 1]" "''us-west''"
      "\<lparr>heap = empty_store, machines = [7], errs = [], trace = [Get_sdc, ListMachines]\<rparr>"
      "\<lparr>opt_help = False, opt_json = True\<rparr>" "[]"
      "[Data ''us-west'' [0, 1], DcError ''us-east'' 2, Data ''eu'' [3], End]" "''machines''" empty_store]
  show ?thesis by blast
qed

subsection \<open>What the \<open>'end'\<close> handler reports\<close>

text \<open>
  C5. When the stream completes without any \<open>'dcError'\<close> event, \<open>machines\<close> holds
  all records received when \<open>'end'\<close> arrives; the run then prints them as JSON, or hands
  them to \<open>common.tabulate\<close> with the columns of the source, and after that calls
  \<open>callback\<close>, once and with no error, whatever the number of records. The rows are
  given from the store the run started from: each is the record with \<open>dc\<close> set to the
  datacenter of its last delivery, which is the datacenter of its own \<open>'data'\<close> event when
  no object is delivered for two different datacenters.
\<close>

theorem no_failures_no_error:
  assumes "\<not> opt_help opts" and "length args \<le> 1" and "End \<notin> set outs"
    and "filter is_failure outs = []"
  shows "machines (do_machines subcmd opts args h outs) = records_of outs \<and>
         trace (do_machines subcmd opts args h (outs @ [End])) =
           [Get_sdc, ListMachines,
            (if opt_json opts then P_json (map (row_of h outs) (records_of outs))
             else Tabulate (map (row_of h outs) (records_of outs))
                    ''dc,id,name,state,created'' ''created''
                    ''dc,id,name,type,state,image,package,memory,disk,created,updated,compute_node,primaryIp''),
            Callback None] \<and>
         (unshared outs \<longrightarrow> map (row_of h outs) (records_of outs) = tagged_records h outs)"
proof -
  have "length (failures_of outs) = 0"
    using assms(4) by (simp add: length_failures_of)
  then have e: "end_err (failures_of outs) = None"
    by (simp add: end_err_def)
  have m: "machines (do_machines subcmd opts args h outs) = records_of outs"
    using assms(1,2) by (simp add: do_machines_subscribed consume_machines)
  have t: "trace (do_machines subcmd opts args h (outs @ [End])) =
           [Get_sdc, ListMachines,
            (if opt_json opts then P_json (map (row_of h outs) (records_of outs))
             else Tabulate (map (row_of h outs) (records_of outs))
                    ''dc,id,name,state,created'' ''created''
                    ''dc,id,name,type,state,image,package,memory,disk,created,updated,compute_node,primaryIp''),
            Callback None]"
    unfolding do_machines_trace [OF assms(1-3)] do_machines_rows [OF assms(1,2)] e render_def ..
  from m t unshared_rows [of outs h] show ?thesis by blast
qed

theorem no_failures_no_error_witness:
  "\<not> opt_help \<lparr>opt_help = False, opt_json = False\<rparr> \<and> \<not> opt_help \<lparr>opt_help = False, opt_json = True\<rparr> \<and>
   length ([] :: string list) \<le> 1 \<and>
   End \<notin> set ([Data ''us-west'' [0, 1], Data ''us-east'' [2]] :: js_event list) \<and>
   filter is_failure ([Data ''us-west'' [0, 1], Data ''us-east'' [2]] :: js_event list) = [] \<and>
   unshared [Data ''us-west'' [0, 1], Data ''us-east'' [2]] \<and>
   machines (do_machines ''machines'' \<lparr>opt_help = False, opt_json = False\<rparr> [] example_machines
     [Data ''us-west'' [0, 1], Data ''us-east'' [2]]) = [0, 1, 2] \<and>
   trace (do_machines ''machines'' \<lparr>opt_help = False, opt_json = False\<rparr> [] example_machines
     [Data ''us-west'' [0, 1], Data ''us-east'' [2], End]) =
     [Get_sdc, ListMachines,
      Tabulate
         [[(''id'', JString ''e91897cf''), (''name'', JString ''web0''), (''state'', JString ''running''),
           (''dc'', JString ''us-west'')],
          [(''id'', JString ''0a5c1f2b''), (''name'', JString ''db0''), (''state'', JString ''stopped''),
           (''dc'', JString ''us-west'')],
          [(''id'', JString ''e91897cf''), (''name'', JString ''web0''), (''dc'', JString ''us-east'')]]
          ''dc,id,name,state,created'' ''created''
          ''dc,id,name,type,state,image,package,memory,disk,created,updated,compute_node,primaryIp'',
      Callback None] \<and>
   trace (do_machines ''machines'' \<lparr>opt_help = False, opt_json = True\<rparr> [] example_machines
     [Data ''us-west'' [0, 1], Data ''us-east'' [2], End]) =
     [Get_sdc, ListMachines,
      P_json
         [[(''id'', JString ''e91897cf''), (''name'', JString ''web0''), (''state'', JString ''running''),
           (''dc'', JString ''us-west'')],
          [(''id'', JString ''0a5c1f2b''), (''name'', JString ''db0''), (''state'', JString ''stopped''),
           (''dc'', JString ''us-west'')],
          [(''id'', JString ''e91897cf''), (''name'', JString ''web0''), (''dc'', JString ''us-east'')]],
      Callback None] \<and>
   tagged_records example_machines [Data ''us-west'' [0, 1], Data ''us-east'' [2]] =
         [[(''id'', JString ''e91897cf''), (''name'', JString ''web0''), (''state'', JString ''running''),
           (''dc'', JString ''us-west'')],
          [(''id'', JString ''0a5c1f2b''), (''name'', JString ''db0''), (''state'', JString ''stopped''),
           (''dc'', JString ''us-west'')],
          [(''id'', JString ''e91897cf''), (''name'', JString ''web0''), (''dc'', JString ''us-east'')]]"
proof -
  have h1: "\<not> opt_help \<lparr>opt_help = False, opt_json = False\<rparr>" by simp
  have j1: "\<not> opt_help \<lparr>opt_help = False, opt_json = True\<rparr>" by simp
  have h2: "length ([] :: string list) \<le> 1" by simp
  have h3: "End \<notin> set ([Data ''us-west'' [0, 1], Data ''us-east'' [2]] :: js_event list)" by simp
  have h4: "filter is_failure ([Data ''us-west'' [0, 1], Data ''us-east'' [2]] :: js_event list) = []"
    by simp
  have h5: "unshared [Data ''us-west'' [0, 1], Data ''us-east'' [2]]"
    by (simp add: unshared_def)
  show ?thesis
    using h1 j1 h2 h3 h4 h5
      no_failures_no_error [OF h1 h2 h3 h4, of "''machines''" example_machines]
      no_failures_no_error [OF j1 h2 h3 h4, of "''machines''" example_machines]
    by (simp add: row_of_def example_machines_def empty_store_def set_prop_def)
qed

text \<open>
  C6. When the stream completes with exactly one \<open>'dcError'\<close> event, \<open>callback\<close> is
  called once with that very error object, not with a \<open>MultiError\<close>; the object
  carries the name of its datacenter in \<open>dc\<close> when no object is delivered for two
  different datacenters. This holds whether the failed datacenter is the only one
  queried or not.
\<close>

theorem single_failure_surfaced:
  assumes "\<not> opt_help opts" and "length args \<le> 1" and "End \<notin> set outs"
    and "filter is_failure outs = [DcError dc dcErr]"
  shows "trace (do_machines subcmd opts args h (outs @ [End])) =
           [Get_sdc, ListMachines,
            render opts (map (heap (do_machines subcmd opts args h (outs @ [End]))) (records_of outs)),
            Callback (Some (Err_ref dcErr))] \<and>
         (unshared outs \<longrightarrow>
            dc_tag (heap (do_machines subcmd opts args h (outs @ [End]))) dcErr = Some (JString dc))"
proof -
  have "failures_of outs = [dcErr]"
    using failures_of_filter [of outs] assms(4) by simp
  then have "end_err (failures_of outs) = Some (Err_ref dcErr)"
    by (simp add: end_err_def)
  moreover have "DcError dc dcErr \<in> set outs"
  proof -
    have "DcError dc dcErr \<in> set (filter is_failure outs)" using assms(4) by simp
    then show ?thesis by simp
  qed
  then have "dc_tag (heap (do_machines subcmd opts args h (outs @ [End]))) dcErr = Some (JString dc)"
    if "unshared outs"
    using that assms(1,2)
    by (simp add: do_machines_subscribed on_end_def consume_tag DcError_deliveries)
  ultimately show ?thesis
    using do_machines_trace [OF assms(1-3)] by simp
qed

theorem single_failure_surfaced_witness:
  "\<not> opt_help \<lparr>opt_help = False, opt_json = True\<rparr> \<and> length ([] :: string list) \<le> 1 \<and>
   End \<notin> set ([DcError ''us-west'' 5, Data ''us-east'' [0, 1]] :: js_event list) \<and>
   filter is_failure ([DcError ''us-west'' 5, Data ''us-east'' [0, 1]] :: js_event list) =
     [DcError ''us-west'' 5] \<and>
   unshared [DcError ''us-west'' 5, Data ''us-east'' [0, 1]] \<and>
   trace (do_machines ''machines'' \<lparr>opt_help = False, opt_json = True\<rparr> [] empty_store
     [DcError ''us-west'' 5, Data ''us-east'' [0, 1], End]) =
     [Get_sdc, ListMachines,
      P_json [[(''dc'', JString ''us-east'')], [(''dc'', JString ''us-east'')]],
      Callback (Some (Err_ref 5))] \<and>
   dc_tag (heap (do_machines ''machines'' \<lparr>opt_help = False, opt_json = True\<rparr> [] empty_store
     [DcError ''us-west'' 5, Data ''us-east'' [0, 1], End])) 5 = Some (JString ''us-west'')"
proof -
  have h1: "\<not> opt_help \<lparr>opt_help = False, opt_json = True\<rparr>" by simp
  have h2: "length ([] :: string list) \<le> 1" by simp
  have h3: "End \<notin> set ([DcError ''us-west'' 5, Data ''us-east'' [0, 1]] :: js_event list)" by simp
  have h4: "filter is_failure ([DcError ''us-west'' 5, Data ''us-east'' [0, 1]] :: js_event list) =
     [DcError ''us-west'' 5]"
    by simp
  have h5: "unshared [DcError ''us-west'' 5, Data ''us-east'' [0, 1]]"
    by (simp add: unshared_def)
  show ?thesis
    using h1 h2 h3 h4 h5 single_failure_surfaced [OF h1 h2 h3 h4, of "''machines''" empty_store]
    by (simp add: do_machines_def on_end_def on_dcError_def assign_def set_prop_def get_prop_def
        render_def empty_store_def dc_tag_def)
qed

text \<open>
  C3. When the stream completes with two or more \<open>'dcError'\<close> events, \<open>callback\<close> is
  called once with a \<open>MultiError\<close> built from the array \<open>errs\<close>, which holds the
  error object of every \<open>'dcError'\<close> event, in order of arrival; each of them carries the
  name of its datacenter in \<open>dc\<close> when no object is delivered for two different
  datacenters.
\<close>

theorem multiple_failures_multi_error:
  assumes "\<not> opt_help opts" and "length args \<le> 1" and "End \<notin> set outs"
    and "2 \<le> length (filter is_failure outs)"
  shows "trace (do_machines subcmd opts args h (outs @ [End])) =
           [Get_sdc, ListMachines,
            render opts (map (heap (do_machines subcmd opts args h (outs @ [End]))) (records_of outs)),
            Callback (Some (Err_multi (MultiError (failures_of outs))))] \<and>
         length (failures_of outs) = length (filter is_failure outs) \<and>
         (unshared outs \<longrightarrow>
            (\<forall>dc dcErr. DcError dc dcErr \<in> set outs \<longrightarrow>
               dcErr \<in> set (failures_of outs) \<and>
               dc_tag (heap (do_machines subcmd opts args h (outs @ [End]))) dcErr = Some (JString dc)))"
proof -
  have "end_err (failures_of outs) = Some (Err_multi (MultiError (failures_of outs)))"
    using assms(4) by (simp add: end_err_def length_failures_of)
  moreover have "dcErr \<in> set (failures_of outs)" if "DcError dc dcErr \<in> set outs" for dc dcErr
    using that by (induction outs rule: failures_of.induct) auto
  moreover have "dc_tag (heap (do_machines subcmd opts args h (outs @ [End]))) dcErr = Some (JString dc)"
    if "unshared outs" "DcError dc dcErr \<in> set outs" for dc dcErr
    using that assms(1,2)
    by (simp add: do_machines_subscribed on_end_def consume_tag DcError_deliveries)
  ultimately show ?thesis
    using do_machines_trace [OF assms(1-3)] by (simp add: length_failures_of)
qed

theorem multiple_failures_multi_error_witness:
  "\<not> opt_help \<lparr>opt_help = False, opt_json = True\<rparr> \<and> length [''x''] \<le> 1 \<and>
   End \<notin> set ([DcError ''a'' 0, Data ''b'' [3], DcError ''c'' 1] :: js_event list) \<and>
   2 \<le> length (filter is_failure ([DcError ''a'' 0, Data ''b'' [3], DcError ''c'' 1] :: js_event list)) \<and>
   unshared [DcError ''a'' 0, Data ''b'' [3], DcError ''c'' 1] \<and>
   trace (do_machines ''machines'' \<lparr>opt_help = False, opt_json = True\<rparr> [''x''] empty_store
            [DcError ''a'' 0, Data ''b'' [3], DcError ''c'' 1, End]) =
     [Get_sdc, ListMachines, P_json [[(''dc'', JString ''b'')]],
      Callback (Some (Err_multi (MultiError [0, 1])))] \<and>
   dc_tag (heap (do_machines ''machines'' \<lparr>opt_help = False, opt_json = True\<rparr> [''x''] empty_store
            [DcError ''a'' 0, Data ''b'' [3], DcError ''c'' 1, End])) 0 = Some (JString ''a'') \<and>
   dc_tag (heap (do_machines ''machines'' \<lparr>opt_help = False, opt_json = True\<rparr> [''x''] empty_store
            [DcError ''a'' 0, Data ''b'' [3], DcError ''c'' 1, End])) 1 = Some (JString ''c'')"
proof -
  have h1: "\<not> opt_help \<lparr>opt_help = False, opt_json = True\<rparr>" by simp
  have h2: "length [''x''] \<le> 1" by simp
  have h3: "End \<notin> set ([DcError ''a'' 0, Data ''b'' [3], DcError ''c'' 1] :: js_event list)" by simp
  have h4: "2 \<le> length (filter is_failure ([DcError ''a'' 0, Data ''b'' [3], DcError ''c'' 1] :: js_event list))"
    by simp
  have h5: "unshared [DcError ''a'' 0, Data ''b'' [3], DcError ''c'' 1]"
    by (simp add: unshared_def)
  show ?thesis
    using h1 h2 h3 h4 h5
      multiple_failures_multi_error [OF h1 h2 h3 h4, of "''machines''" empty_store]
    by (simp add: do_machines_def on_end_def on_dcError_def assign_def set_prop_def get_prop_def
        render_def end_err_def empty_store_def dc_tag_def)
qed

text \<open>
  C4. In a run in which at least one datacenter fails, the records of all \<open>'data'\<close>
  events are accumulated (they are what \<open>machines\<close> holds when \<open>'end'\<close> arrives); all of
  them are printed as JSON, or handed to \<open>common.tabulate\<close> with the columns of the
  source, and only then is the error reported. The rows are given from the store the run
  started from. When no object is delivered for two different datacenters, each row is
  the record tagged with the datacenter of its own \<open>'data'\<close> event, and the same stream
  without its \<open>'dcError'\<close> events displays exactly these rows: a failure takes no record
  away.
\<close>

theorem partial_success_rendered:
  assumes "\<not> opt_help opts" and "length args \<le> 1" and "End \<notin> set outs"
    and "filter is_failure outs \<noteq> []"
  shows "machines (do_machines subcmd opts args h outs) = records_of (filter is_data outs) \<and>
         (\<exists>err. trace (do_machines subcmd opts args h (outs @ [End])) =
           [Get_sdc, ListMachines,
            (if opt_json opts then P_json (map (row_of h outs) (records_of (filter is_data outs)))
             else Tabulate (map (row_of h outs) (records_of (filter is_data outs)))
                    ''dc,id,name,state,created'' ''created''
                    ''dc,id,name,type,state,image,package,memory,disk,created,updated,compute_node,primaryIp''),
            Callback (Some err)]) \<and>
         (unshared outs \<longrightarrow>
            map (row_of h outs) (records_of (filter is_data outs)) =
              tagged_records h (filter is_data outs) \<and>
            trace (do_machines subcmd opts args h (filter is_data outs @ [End])) =
              [Get_sdc, ListMachines,
               (if opt_json opts then P_json (tagged_records h (filter is_data outs))
                else Tabulate (tagged_records h (filter is_data outs))
                       ''dc,id,name,state,created'' ''created''
                       ''dc,id,name,type,state,image,package,memory,disk,created,updated,compute_node,primaryIp''),
               Callback None])"
proof -
  have "length (failures_of outs) \<noteq> 0"
    using assms(4) by (simp add: length_failures_of)
  then have "length (failures_of outs) = 1 \<or> 1 < length (failures_of outs)"
    by linarith
  then have "\<exists>err. end_err (failures_of outs) = Some err"
    unfolding end_err_def by (cases "length (failures_of outs) = 1") simp_all
  then obtain err where err: "end_err (failures_of outs) = Some err" ..
  have m: "machines (do_machines subcmd opts args h outs) = records_of (filter is_data outs)"
    using assms(1,2) by (simp add: do_machines_subscribed consume_machines records_of_filter)
  have t: "trace (do_machines subcmd opts args h (outs @ [End])) =
           [Get_sdc, ListMachines,
            (if opt_json opts then P_json (map (row_of h outs) (records_of (filter is_data outs)))
             else Tabulate (map (row_of h outs) (records_of (filter is_data outs)))
                    ''dc,id,name,state,created'' ''created''
                    ''dc,id,name,type,state,image,package,memory,disk,created,updated,compute_node,primaryIp''),
            Callback (Some err)]"
    unfolding do_machines_trace [OF assms(1-3)] do_machines_rows [OF assms(1,2)] err render_def
      records_of_filter ..
  have r: "map (row_of h outs) (records_of (filter is_data outs)) = tagged_records h (filter is_data outs)"
    if "unshared outs"
    using unshared_rows [OF that, of h] by (simp only: records_of_filter tagged_records_filter)
  have f: "trace (do_machines subcmd opts args h (filter is_data outs @ [End])) =
              [Get_sdc, ListMachines,
               (if opt_json opts then P_json (tagged_records h (filter is_data outs))
                else Tabulate (tagged_records h (filter is_data outs))
                       ''dc,id,name,state,created'' ''created''
                       ''dc,id,name,type,state,image,package,memory,disk,created,updated,compute_node,primaryIp''),
               Callback None]" if u: "unshared outs"
  proof -
    have n: "End \<notin> set (filter is_data outs)" by simp
    have e: "end_err (failures_of (filter is_data outs)) = None"
      by (simp add: failures_of_only_data end_err_def)
    have "map (row_of h (filter is_data outs)) (records_of (filter is_data outs)) =
          tagged_records h (filter is_data outs)"
      by (rule unshared_rows [OF unshared_filter [OF u]])
    then show ?thesis
      unfolding do_machines_trace [OF assms(1,2) n] do_machines_rows [OF assms(1,2)] e render_def
      by (simp only:)
  qed
  from m t r f show ?thesis by blast
qed

theorem partial_success_rendered_witness:
  "\<not> opt_help \<lparr>opt_help = False, opt_json = False\<rparr> \<and> \<not> opt_help \<lparr>opt_help = False, opt_json = True\<rparr> \<and>
   length ([] :: string list) \<le> 1 \<and>
   End \<notin> set ([DcError ''us-west'' 5, Data ''us-east'' [0, 1]] :: js_event list) \<and>
   filter is_failure ([DcError ''us-west'' 5, Data ''us-east'' [0, 1]] :: js_event list) \<noteq> [] \<and>
   unshared [DcError ''us-west'' 5, Data ''us-east'' [0, 1]] \<and>
   machines (do_machines ''machines'' \<lparr>opt_help = False, opt_json = False\<rparr> [] example_machines
     [DcError ''us-west'' 5, Data ''us-east'' [0, 1]]) = [0, 1] \<and>
   trace (do_machines ''machines'' \<lparr>opt_help = False, opt_json = False\<rparr> [] example_machines
     [DcError ''us-west'' 5, Data ''us-east'' [0, 1], End]) =
     [Get_sdc, ListMachines,
      Tabulate
         [[(''id'', JString ''e91897cf''), (''name'', JString ''web0''), (''state'', JString ''running''),
           (''dc'', JString ''us-east'')],
          [(''id'', JString ''0a5c1f2b''), (''name'', JString ''db0''), (''state'', JString ''stopped''),
           (''dc'', JString ''us-east'')]]
          ''dc,id,name,state,created'' ''created''
          ''dc,id,name,type,state,image,package,memory,disk,created,updated,compute_node,primaryIp'',
      Callback (Some (Err_ref 5))] \<and>
   trace (do_machines ''machines'' \<lparr>opt_help = False, opt_json = True\<rparr> [] example_machines
     [DcError ''us-west'' 5, Data ''us-east'' [0, 1], End]) =
     [Get_sdc, ListMachines,
      P_json
         [[(''id'', JString ''e91897cf''), (''name'', JString ''web0''), (''state'', JString ''running''),
           (''dc'', JString ''us-east'')],
          [(''id'', JString ''0a5c1f2b''), (''name'', JString ''db0''), (''state'', JString ''stopped''),
           (''dc'', JString ''us-east'')]],
      Callback (Some (Err_ref 5))] \<and>
   trace (do_machines ''machines'' \<lparr>opt_help = False, opt_json = False\<rparr> [] example_machines
     [Data ''us-east'' [0, 1], End]) =
     [Get_sdc, ListMachines,
      Tabulate
         [[(''id'', JString ''e91897cf''), (''name'', JString ''web0''), (''state'', JString ''running''),
           (''dc'', JString ''us-east'')],
          [(''id'', JString ''0a5c1f2b''), (''name'', JString ''db0''), (''state'', JString ''stopped''),
           (''dc'', JString ''us-east'')]]
          ''dc,id,name,state,created'' ''created''
          ''dc,id,name,type,state,image,package,memory,disk,created,updated,compute_node,primaryIp'',
      Callback None] \<and>
   trace (do_machines ''machines'' \<lparr>opt_help = False, opt_json = True\<rparr> [] example_machines
     [Data ''us-east'' [0, 1], End]) =
     [Get_sdc, ListMachines,
      P_json
         [[(''id'', JString ''e91897cf''), (''name'', JString ''web0''), (''state'', JString ''running''),
           (''dc'', JString ''us-east'')],
          [(''id'', JString ''0a5c1f2b''), (''name'', JString ''db0''), (''state'', JString ''stopped''),
           (''dc'', JString ''us-east'')]],
      Callback None]"
proof -
  have h1: "\<not> opt_help \<lparr>opt_help = False, opt_json = False\<rparr>" by simp
  have j1: "\<not> opt_help \<lparr>opt_help = False, opt_json = True\<rparr>" by simp
  have h2: "length ([] :: string list) \<le> 1" by simp
  have h3: "End \<notin> set ([DcError ''us-west'' 5, Data ''us-east'' [0, 1]] :: js_event list)" by simp
  have h4: "filter is_failure ([DcError ''us-west'' 5, Data ''us-east'' [0, 1]] :: js_event list) \<noteq> []"
    by simp
  have h5: "unshared [DcError ''us-west'' 5, Data ''us-east'' [0, 1]]"
    by (simp add: unshared_def)
  have e: "trace (do_machines ''machines'' opts [] example_machines
     [DcError ''us-west'' 5, Data ''us-east'' [0, 1], End]) =
     [Get_sdc, ListMachines, x, Callback (Some err)] \<Longrightarrow> err = Err_ref 5" for opts x err
    by (cases "opt_help opts") (simp_all add: do_machines_def on_end_def on_dcError_def end_err_def)
  from partial_success_rendered [OF h1 h2 h3 h4, of "''machines''" example_machines] h5
  obtain err where
    t1: "trace (do_machines ''machines'' \<lparr>opt_help = False, opt_json = False\<rparr> [] example_machines
           ([DcError ''us-west'' 5, Data ''us-east'' [0, 1]] @ [End])) =
         [Get_sdc, ListMachines,
          Tabulate (map (row_of example_machines [DcError ''us-west'' 5, Data ''us-east'' [0, 1]])
                      (records_of (filter is_data [DcError ''us-west'' 5, Data ''us-east'' [0, 1]])))
            ''dc,id,name,state,created'' ''created''
          ''dc,id,name,type,state,image,package,memory,disk,created,updated,compute_node,primaryIp'',
          Callback (Some err)]"
    and t2: "trace (do_machines ''machines'' \<lparr>opt_help = False, opt_json = False\<rparr> [] example_machines
           (filter is_data [DcError ''us-west'' 5, Data ''us-east'' [0, 1]] @ [End])) =
         [Get_sdc, ListMachines,
          Tabulate (tagged_records example_machines (filter is_data [DcError ''us-west'' 5, Data ''us-east'' [0, 1]]))
            ''dc,id,name,state,created'' ''created''
          ''dc,id,name,type,state,image,package,memory,disk,created,updated,compute_node,primaryIp'',
          Callback None]"
    and m: "machines (do_machines ''machines'' \<lparr>opt_help = False, opt_json = False\<rparr> [] example_machines
     [DcError ''us-west'' 5, Data ''us-east'' [0, 1]]) = records_of (filter is_data [DcError ''us-west'' 5, Data ''us-east'' [0, 1]])"
    by auto
  from partial_success_rendered [OF j1 h2 h3 h4, of "''machines''" example_machines] h5
  obtain err' where
    u1: "trace (do_machines ''machines'' \<lparr>opt_help = False, opt_json = True\<rparr> [] example_machines
           ([DcError ''us-west'' 5, Data ''us-east'' [0, 1]] @ [End])) =
         [Get_sdc, ListMachines,
          P_json (map (row_of example_machines [DcError ''us-west'' 5, Data ''us-east'' [0, 1]])
                      (records_of (filter is_data [DcError ''us-west'' 5, Data ''us-east'' [0, 1]]))),
          Callback (Some err')]"
    and u2: "trace (do_machines ''machines'' \<lparr>opt_help = False, opt_json = True\<rparr> [] example_machines
           (filter is_data [DcError ''us-west'' 5, Data ''us-east'' [0, 1]] @ [End])) =
         [Get_sdc, ListMachines,
          P_json (tagged_records example_machines (filter is_data [DcError ''us-west'' 5, Data ''us-east'' [0, 1]])),
          Callback None]"
    by auto
  have "err = Err_ref 5" using e [of "\<lparr>opt_help = False, opt_json = False\<rparr>"] t1 by simp
  moreover have "err' = Err_ref 5" using e [of "\<lparr>opt_help = False, opt_json = True\<rparr>"] u1 by simp
  ultimately show ?thesis
    using h1 j1 h2 h3 h4 h5 t1 t2 u1 u2 m
    by (simp add: row_of_def example_machines_def empty_store_def set_prop_def)
qed

subsection \<open>The accumulation does not depend on the order of arrival\<close>

lemma records_of_concat:
  "records_of evs = concat (map (\<lambda>ev. case ev of Data dc ms \<Rightarrow> ms | _ \<Rightarrow> []) evs)"
  by (induction evs rule: records_of.induct) simp_all

lemma failures_of_concat:
  "failures_of evs = concat (map (\<lambda>ev. case ev of DcError dc e \<Rightarrow> [e] | _ \<Rightarrow> []) evs)"
  by (induction evs rule: failures_of.induct) simp_all

lemma mset_concat_map: "mset (concat (map f xs)) = (\<Sum>x\<in>#mset xs. mset (f x))"
  by (induction xs) simp_all

lemma mset_records_of:
  "mset evs = mset evs' \<Longrightarrow> mset (records_of evs) = mset (records_of evs')"
  by (simp add: records_of_concat mset_concat_map)

lemma mset_failures_of:
  "mset evs = mset evs' \<Longrightarrow> mset (failures_of evs) = mset (failures_of evs')"
  by (simp add: failures_of_concat mset_concat_map)

lemma set_deliveries: "set (deliveries evs) = (\<Union>ev\<in>set evs. set (deliveries [ev]))"
proof (induction evs)
  case Nil
  show ?case by simp
next
  case (Cons ev evs)
  show ?case using Cons.IH deliveries_Cons [of ev evs] by simp
qed

lemma unshared_map_of:
  assumes "unshared evs" and "set (deliveries evs') = set (deliveries evs)"
  shows "map_of (rev (deliveries evs')) a = map_of (rev (deliveries evs)) a"
proof (cases "a \<in> fst ` set (deliveries evs)")
  case True
  then obtain d where d: "(a, d) \<in> set (deliveries evs)" by force
  have u': "unshared evs'" unfolding unshared_def assms(2) using assms(1) unfolding unshared_def .
  have d': "(a, d) \<in> set (deliveries evs')" using d assms(2) by simp
  show ?thesis
    by (simp only: unshared_last [OF assms(1) d] unshared_last [OF u' d'])
next
  case False
  then have "map_of (rev (deliveries evs)) a = None"
    by (simp add: map_of_eq_None_iff)
  moreover have "map_of (rev (deliveries evs')) a = None"
    using False assms(2) by (simp add: map_of_eq_None_iff)
  ultimately show ?thesis by simp
qed

lemma consume_twice_heap:
  "heap (foldl (handle opts) (s\<lparr>heap := heap (foldl (handle opts) s evs)\<rparr>) evs) =
   heap (foldl (handle opts) s evs)"
  by (rule ext) (simp add: consume_heap set_prop_twice split: option.splits)

text \<open>
  C8. Two streams that carry the same outcome events in different orders (the same
  datacenters answering the same way, interleaved differently) leave the same store and
  the same records and errors up to order, when no object is delivered for two different
  datacenters. And consuming a stream once more, on the store the first run left behind,
  gives the very same result: the same \<open>machines\<close> and \<open>errs\<close>, the same rendered
  rows, the same error. (That two runs over one stream from one store agree needs no
  proof: \<open>do_machines\<close> is a function of the store and the stream.)
\<close>

theorem accumulation_order_insensitive:
  assumes "\<not> opt_help opts" and "length args \<le> 1" and "End \<notin> set outs"
    and "mset outs' = mset outs" and "unshared outs"
  shows "heap (do_machines subcmd opts args h (outs' @ [End])) =
           heap (do_machines subcmd opts args h (outs @ [End])) \<and>
         mset (machines (do_machines subcmd opts args h (outs' @ [End]))) =
           mset (machines (do_machines subcmd opts args h (outs @ [End]))) \<and>
         mset (errs (do_machines subcmd opts args h (outs' @ [End]))) =
           mset (errs (do_machines subcmd opts args h (outs @ [End]))) \<and>
         mset (map (heap (do_machines subcmd opts args h (outs' @ [End])))
                 (machines (do_machines subcmd opts args h (outs' @ [End])))) =
           mset (map (heap (do_machines subcmd opts args h (outs @ [End])))
                   (machines (do_machines subcmd opts args h (outs @ [End])))) \<and>
         mset (map (heap (do_machines subcmd opts args h (outs' @ [End])))
                 (errs (do_machines subcmd opts args h (outs' @ [End])))) =
           mset (map (heap (do_machines subcmd opts args h (outs @ [End])))
                   (errs (do_machines subcmd opts args h (outs @ [End])))) \<and>
         do_machines subcmd opts args (heap (do_machines subcmd opts args h (outs @ [End]))) (outs @ [End]) =
           do_machines subcmd opts args h (outs @ [End])"
proof -
  let ?s = "\<lparr>heap = h, machines = [], errs = [], trace = [Get_sdc, ListMachines]\<rparr>"
  have d: "set (deliveries outs') = set (deliveries outs)"
    using mset_eq_setD [OF assms(4)] set_deliveries [of outs'] set_deliveries [of outs] by simp
  have "heap (foldl (handle opts) ?s outs') a = heap (foldl (handle opts) ?s outs) a" for a
    by (simp only: consume_heap unshared_map_of [OF assms(5) d])
  then have "heap (foldl (handle opts) ?s outs') = heap (foldl (handle opts) ?s outs)"
    by (rule ext)
  then have 1: "heap (do_machines subcmd opts args h (outs' @ [End])) =
           heap (do_machines subcmd opts args h (outs @ [End]))"
    using assms(1,2) by (simp add: do_machines_subscribed on_end_def)
  have 2: "mset (machines (do_machines subcmd opts args h (outs' @ [End]))) =
           mset (machines (do_machines subcmd opts args h (outs @ [End])))"
    using assms(1,2) mset_records_of [OF assms(4)]
    by (simp add: do_machines_subscribed on_end_def consume_machines)
  have 3: "mset (errs (do_machines subcmd opts args h (outs' @ [End]))) =
           mset (errs (do_machines subcmd opts args h (outs @ [End])))"
    using assms(1,2) mset_failures_of [OF assms(4)]
    by (simp add: do_machines_subscribed on_end_def consume_errs)
  let ?r = "do_machines subcmd opts args h (outs @ [End])"
  have hp: "heap (do_machines subcmd opts args (heap ?r) (outs @ [End])) = heap ?r"
    using assms(1,2) consume_twice_heap [of opts ?s outs]
    by (simp add: do_machines_subscribed on_end_def)
  have 4: "do_machines subcmd opts args (heap ?r) (outs @ [End]) = ?r"
  proof (rule consumer.equality)
    show "heap (do_machines subcmd opts args (heap ?r) (outs @ [End])) = heap ?r" by (rule hp)
    show "machines (do_machines subcmd opts args (heap ?r) (outs @ [End])) = machines ?r"
      using assms(1,2) by (simp add: do_machines_subscribed on_end_def consume_machines)
    show "errs (do_machines subcmd opts args (heap ?r) (outs @ [End])) = errs ?r"
      using assms(1,2) by (simp add: do_machines_subscribed on_end_def consume_errs)
    show "trace (do_machines subcmd opts args (heap ?r) (outs @ [End])) = trace ?r"
      by (simp only: do_machines_trace [OF assms(1-3)] hp)
    show "consumer.more (do_machines subcmd opts args (heap ?r) (outs @ [End])) = consumer.more ?r"
      by simp
  qed
  have 5: "mset (map (heap (do_machines subcmd opts args h (outs' @ [End])))
                 (machines (do_machines subcmd opts args h (outs' @ [End])))) =
           mset (map (heap ?r) (machines ?r))"
    by (simp only: 1 2 mset_map)
  have 6: "mset (map (heap (do_machines subcmd opts args h (outs' @ [End])))
                 (errs (do_machines subcmd opts args h (outs' @ [End])))) =
           mset (map (heap ?r) (errs ?r))"
    by (simp only: 1 3 mset_map)
  from 1 2 3 5 6 4 show ?thesis by (intro conjI)
qed

theorem accumulation_order_insensitive_witness:
  "\<not> opt_help \<lparr>opt_help = False, opt_json = True\<rparr> \<and> length ([] :: string list) \<le> 1 \<and>
   End \<notin> set ([Data ''us-west'' [0], DcError ''us-east'' 1, Data ''eu'' [2]] :: js_event list) \<and>
   mset ([Data ''eu'' [2], Data ''us-west'' [0], DcError ''us-east'' 1] :: js_event list) =
     mset [Data ''us-west'' [0], DcError ''us-east'' 1, Data ''eu'' [2]] \<and>
   unshared [Data ''us-west'' [0], DcError ''us-east'' 1, Data ''eu'' [2]] \<and>
   machines (do_machines ''machines'' \<lparr>opt_help = False, opt_json = True\<rparr> [] empty_store
     [Data ''us-west'' [0], DcError ''us-east'' 1, Data ''eu'' [2], End]) = [0, 2] \<and>
   machines (do_machines ''machines'' \<lparr>opt_help = False, opt_json = True\<rparr> [] empty_store
     [Data ''eu'' [2], Data ''us-west'' [0], DcError ''us-east'' 1, End]) = [2, 0] \<and>
   heap (do_machines ''machines'' \<lparr>opt_help = False, opt_json = True\<rparr> [] empty_store
     ([Data ''eu'' [2], Data ''us-west'' [0], DcError ''us-east'' 1] @ [End])) =
   heap (do_machines ''machines'' \<lparr>opt_help = False, opt_json = True\<rparr> [] empty_store
     ([Data ''us-west'' [0], DcError ''us-east'' 1, Data ''eu'' [2]] @ [End])) \<and>
   do_machines ''machines'' \<lparr>opt_help = False, opt_json = True\<rparr> []
     (heap (do_machines ''machines'' \<lparr>opt_help = False, opt_json = True\<rparr> [] empty_store
        ([Data ''us-west'' [0], DcError ''us-east'' 1, Data ''eu'' [2]] @ [End])))
     ([Data ''us-west'' [0], DcError ''us-east'' 1, Data ''eu'' [2]] @ [End]) =
   do_machines ''machines'' \<lparr>opt_help = False, opt_json = True\<rparr> [] empty_store
     ([Data ''us-west'' [0], DcError ''us-east'' 1, Data ''eu'' [2]] @ [End])"
proof -
  have h1: "\<not> opt_help \<lparr>opt_help = False, opt_json = True\<rparr>" by simp
  have h2: "length ([] :: string list) \<le> 1" by simp
  have h3: "End \<notin> set ([Data ''us-west'' [0], DcError ''us-east'' 1, Data ''eu'' [2]] :: js_event list)"
    by simp
  have h4: "mset ([Data ''eu'' [2], Data ''us-west'' [0], DcError ''us-east'' 1] :: js_event list) =
     mset [Data ''us-west'' [0], DcError ''us-east'' 1, Data ''eu'' [2]]"
    by simp
  have h5: "unshared [Data ''us-west'' [0], DcError ''us-east'' 1, Data ''eu'' [2]]"
    by (simp add: unshared_def)
  have m1: "machines (do_machines ''machines'' \<lparr>opt_help = False, opt_json = True\<rparr> [] empty_store
     [Data ''us-west'' [0], DcError ''us-east'' 1, Data ''eu'' [2], End]) = [0, 2]"
    by (simp add: do_machines_def on_end_def on_dcError_def)
  have m2: "machines (do_machines ''machines'' \<lparr>opt_help = False, opt_json = True\<rparr> [] empty_store
     [Data ''eu'' [2], Data ''us-west'' [0], DcError ''us-east'' 1, End]) = [2, 0]"
    by (simp add: do_machines_def on_end_def on_dcError_def)
  from h1 h2 h3 h4 h5 m1 m2
    accumulation_order_insensitive [OF h1 h2 h3 h4 h5, of "''machines''" empty_store]
  show ?thesis by blast
qed

subsection \<open>The aggregator\<close>

lemma outcome_not_End: "outcome dc r \<noteq> End"
  by (cases r) simp_all

lemma event_dc_outcome: "event_dc (outcome dc r) = Some dc"
  by (cases r) simp_all

text \<open>The invariant of a run: counter, pending units and emitted events agree.\<close>

lemma unit_completes_invariant:
  assumes "outstanding a = length (pending a)"
    and "emitted a = outs @ (if pending a = [] then [End] else [])"
    and "mset outs + mset (map (\<lambda>dc. outcome dc (client dc)) (pending a)) = M"
  shows "outstanding (unit_completes client a dc) = length (pending (unit_completes client a dc)) \<and>
         (\<exists>outs'. emitted (unit_completes client a dc) =
                    outs' @ (if pending (unit_completes client a dc) = [] then [End] else []) \<and>
                  mset outs' + mset (map (\<lambda>dc. outcome dc (client dc))
                                       (pending (unit_completes client a dc))) = M)"
proof (cases "dc \<in> set (pending a)")
  case False
  then show ?thesis using assms by (auto simp: unit_completes_def)
next
  case True
  then have ne: "pending a \<noteq> []" by auto
  have len: "length (remove1 dc (pending a)) = length (pending a) - 1"
    using True by (simp add: length_remove1)
  have z: "(length (pending a) - 1 = 0) = (remove1 dc (pending a) = [])"
    using len by (metis length_0_conv)
  have m: "mset (map (\<lambda>dc. outcome dc (client dc)) (pending a)) =
           add_mset (outcome dc (client dc))
             (mset (map (\<lambda>dc. outcome dc (client dc)) (remove1 dc (pending a))))"
    using True by (metis (no_types, lifting) image_mset_add_mset insert_DiffM mset_map mset_remove1 set_mset_mset)
  show ?thesis
    using True assms ne len z m
    by (auto simp: unit_completes_def Let_def intro!: exI [of _ "outs @ [outcome dc (client dc)]"])
qed

lemma run_schedule_invariant:
  "outstanding (run_schedule client dcs schedule) = length (pending (run_schedule client dcs schedule)) \<and>
   (\<exists>outs. emitted (run_schedule client dcs schedule) =
              outs @ (if pending (run_schedule client dcs schedule) = [] then [End] else []) \<and>
            mset outs + mset (map (\<lambda>dc. outcome dc (client dc))
                                (pending (run_schedule client dcs schedule))) =
              mset (map (\<lambda>dc. outcome dc (client dc)) dcs))"
proof (induction schedule rule: rev_induct)
  case Nil
  show ?case by (simp add: run_schedule_def run_def)
next
  case (snoc dc schedule)
  then obtain outs where
    "outstanding (run_schedule client dcs schedule) = length (pending (run_schedule client dcs schedule))"
    "emitted (run_schedule client dcs schedule) =
       outs @ (if pending (run_schedule client dcs schedule) = [] then [End] else [])"
    "mset outs + mset (map (\<lambda>dc. outcome dc (client dc)) (pending (run_schedule client dcs schedule))) =
       mset (map (\<lambda>dc. outcome dc (client dc)) dcs)"
    by blast
  from unit_completes_invariant [OF this, of dc]
  show ?case by (simp add: run_schedule_def)
qed

lemma complete_outcomes:
  assumes "complete (run_schedule client dcs schedule)"
  obtains outs where "emitted (run_schedule client dcs schedule) = outs @ [End]"
    and "mset outs = mset (map (\<lambda>dc. outcome dc (client dc)) dcs)"
  using run_schedule_invariant [of client dcs schedule] assms
  by (auto simp: complete_def)

lemma pending_unit_completes: "pending (unit_completes client a dc) = remove1 dc (pending a)"
  by (simp add: unit_completes_def remove1_idem)

lemma pending_run_schedule:
  "pending (foldl (unit_completes client) a schedule) = foldl (\<lambda>p dc. remove1 dc p) (pending a) schedule"
  by (induction schedule arbitrary: a) (simp_all add: pending_unit_completes)

lemma remove_all_in_order: "foldl (\<lambda>p dc. remove1 dc p) dcs dcs = []"
  by (induction dcs) simp_all

text \<open>Every run can complete: it does once each unit has completed, in the order of launch say.\<close>

lemma run_schedule_completes: "complete (run_schedule client dcs dcs)"
  by (simp add: complete_def run_schedule_def pending_run_schedule run_def remove_all_in_order)

text \<open>
  Two complete runs over the same datacenters and the same client emit the same outcome
  events, in orders that may differ: the situation of the previous subsection.
\<close>

lemma complete_runs_permuted:
  assumes "complete (run_schedule client dcs schedule)"
    and "complete (run_schedule client dcs schedule')"
  shows "\<exists>outs outs'. emitted (run_schedule client dcs schedule) = outs @ [End] \<and>
           emitted (run_schedule client dcs schedule') = outs' @ [End] \<and>
           End \<notin> set outs \<and> mset outs' = mset outs"
proof -
  from complete_outcomes [OF assms(1)] obtain outs where
    1: "emitted (run_schedule client dcs schedule) = outs @ [End]"
       "mset outs = mset (map (\<lambda>dc. outcome dc (client dc)) dcs)"
    by blast
  from complete_outcomes [OF assms(2)] obtain outs' where
    2: "emitted (run_schedule client dcs schedule') = outs' @ [End]"
       "mset outs' = mset (map (\<lambda>dc. outcome dc (client dc)) dcs)"
    by blast
  have "set outs = (\<lambda>dc. outcome dc (client dc)) ` set dcs"
    using mset_eq_setD [OF 1(2)] by simp
  then have "End \<notin> set outs"
    using outcome_not_End by (metis (no_types, lifting) imageE)
  with 1 2 show ?thesis by simp
qed

lemma filter_eq_single: "x \<in> set xs \<Longrightarrow> distinct xs \<Longrightarrow> filter (\<lambda>y. y = x) xs = [x]"
proof (induction xs)
  case Nil
  then show ?case by simp
next
  case (Cons a xs)
  show ?case
  proof (cases "a = x")
    case True
    then have "x \<notin> set xs" using Cons.prems by simp
    then have "filter (\<lambda>y. y = x) xs = []" by (auto simp: filter_empty_conv)
    with True show ?thesis by simp
  next
    case False
    then show ?thesis using Cons by simp
  qed
qed

text \<open>
  C1. For a non-empty set of datacenters, once the run is complete the emitted stream
  consists of outcome events followed by one \<open>End\<close>; there are as many outcome events
  as datacenters, every one belongs to a queried datacenter, and the events of each
  datacenter are exactly its one outcome (a record batch or a failure).
\<close>

theorem one_outcome_per_dc:
  assumes "dcs \<noteq> []" and "distinct dcs"
    and "complete (run_schedule client dcs schedule)"
  shows "\<exists>outs. emitted (run_schedule client dcs schedule) = outs @ [End] \<and>
           End \<notin> set outs \<and>
           length outs = length dcs \<and>
           (\<forall>dc \<in> set dcs. filter (\<lambda>ev. event_dc ev = Some dc) outs = [outcome dc (client dc)]) \<and>
           (\<forall>ev \<in> set outs. \<exists>dc \<in> set dcs. event_dc ev = Some dc)"
proof -
  from complete_outcomes [OF assms(3)] obtain outs where
    e: "emitted (run_schedule client dcs schedule) = outs @ [End]" and
    m: "mset outs = mset (map (\<lambda>dc. outcome dc (client dc)) dcs)"
    by blast
  have s: "set outs = (\<lambda>dc. outcome dc (client dc)) ` set dcs"
    using mset_eq_setD [OF m] by simp
  have 1: "End \<notin> set outs"
    using s outcome_not_End by (metis (no_types, lifting) imageE)
  have 2: "length outs = length dcs"
    using mset_eq_length [OF m] by simp
  have 3: "filter (\<lambda>ev. event_dc ev = Some dc) outs = [outcome dc (client dc)]" if "dc \<in> set dcs" for dc
  proof -
    have "mset (filter (\<lambda>ev. event_dc ev = Some dc) outs) =
          mset (filter (\<lambda>ev. event_dc ev = Some dc) (map (\<lambda>dc. outcome dc (client dc)) dcs))"
      using m by (metis mset_filter)
    also have "\<dots> = mset (map (\<lambda>dc. outcome dc (client dc)) (filter (\<lambda>d. d = dc) dcs))"
      by (simp add: filter_map comp_def event_dc_outcome)
    also have "filter (\<lambda>d. d = dc) dcs = [dc]"
      using that assms(2) by (rule filter_eq_single)
    finally have "mset (filter (\<lambda>ev. event_dc ev = Some dc) outs) = {#outcome dc (client dc)#}"
      by simp
    then show ?thesis by (simp only: mset_single_iff)
  qed
  have 4: "\<exists>dc \<in> set dcs. event_dc ev = Some dc" if "ev \<in> set outs" for ev
    using that s event_dc_outcome by auto
  show ?thesis using e 1 2 3 4 by blast
qed

theorem one_outcome_per_dc_witness:
  "[''us-west'', ''us-east''] \<noteq> [] \<and> distinct [''us-west'', ''us-east''] \<and>
   complete (run_schedule scenario_client [''us-west'', ''us-east''] [''us-east'', ''us-west'']) \<and>
   emitted (run_schedule scenario_client [''us-west'', ''us-east''] [''us-east'', ''us-west'']) =
     [Data ''us-east'' [0, 1], DcError ''us-west'' 2, End] \<and>
   (\<exists>outs. emitted (run_schedule scenario_client [''us-west'', ''us-east''] [''us-east'', ''us-west'']) =
             outs @ [End] \<and>
           End \<notin> set outs \<and>
           length outs = length [''us-west'', ''us-east''] \<and>
           (\<forall>dc \<in> set [''us-west'', ''us-east''].
              filter (\<lambda>ev. event_dc ev = Some dc) outs = [outcome dc (scenario_client dc)]) \<and>
           (\<forall>ev \<in> set outs. \<exists>dc \<in> set [''us-west'', ''us-east'']. event_dc ev = Some dc))"
proof -
  have h1: "[''us-west'', ''us-east''] \<noteq> []" by simp
  have h2: "distinct [''us-west'', ''us-east'']" by simp
  have h3: "complete (run_schedule scenario_client [''us-west'', ''us-east''] [''us-east'', ''us-west''])"
    by (simp add: complete_def run_schedule_def run_def unit_completes_def)
  have e: "emitted (run_schedule scenario_client [''us-west'', ''us-east''] [''us-east'', ''us-west'']) =
     [Data ''us-east'' [0, 1], DcError ''us-west'' 2, End]"
    by (simp add: run_schedule_def run_def unit_completes_def scenario_client_def)
  from h1 h2 h3 e one_outcome_per_dc [OF h1 h2 h3] show ?thesis by (intro conjI)
qed

text \<open>
  C7. For the empty set of datacenters the aggregator has emitted \<open>End\<close> and nothing
  else, at once and under every schedule; on that stream \<open>do_machines\<close> renders the
  empty array and calls back with no error, leaving the store untouched.
\<close>

theorem empty_dc_set_no_error:
  assumes "\<not> opt_help opts" and "length args \<le> 1"
  shows "emitted (run_schedule client [] schedule) = [End] \<and>
         complete (run_schedule client [] schedule) \<and>
         do_machines subcmd opts args h (emitted (run_schedule client [] schedule)) =
           \<lparr>heap = h, machines = [], errs = [],
            trace = [Get_sdc, ListMachines, render opts [], Callback None]\<rparr>"
proof -
  have "foldl (unit_completes client) (run []) schedule = run []"
    by (induction schedule) (simp_all add: unit_completes_def run_def)
  then have r: "run_schedule client [] schedule = run []"
    by (simp add: run_schedule_def)
  show ?thesis
    using assms by (simp add: r run_def complete_def do_machines_def on_end_def end_err_def)
qed

theorem empty_dc_set_no_error_witness:
  "\<not> opt_help \<lparr>opt_help = False, opt_json = True\<rparr> \<and> length [''x''] \<le> 1 \<and>
   emitted (run_schedule scenario_client [] []) = [End] \<and>
   complete (run_schedule scenario_client [] []) \<and>
   do_machines ''machines'' \<lparr>opt_help = False, opt_json = True\<rparr> [''x''] empty_store
       (emitted (run_schedule scenario_client [] [])) =
     \<lparr>heap = empty_store, machines = [], errs = [],
      trace = [Get_sdc, ListMachines, P_json [], Callback None]\<rparr>"
proof -
  have h1: "\<not> opt_help \<lparr>opt_help = False, opt_json = True\<rparr>" by simp
  have h2: "length [''x''] \<le> 1" by simp
  have r: "render \<lparr>opt_help = False, opt_json = True\<rparr> [] = P_json []"
    by (simp add: render_def)
  show ?thesis
    using h1 h2 empty_dc_set_no_error [OF h1 h2, of scenario_client "[]" "''machines''" empty_store]
    unfolding r by blast
qed

subsection \<open>Too many arguments\<close>

text \<open>
  C9, as stated, fails: every command tests \<open>opts.help\<close> first, so with the help
  option and two positional arguments \<open>do_help\<close> is called and no error is reported.
\<close>

theorem too_many_args_counterexample:
  "1 < length [''a'', ''b''] \<and>
   trace (do_machines ''machines'' \<lparr>opt_help = True, opt_json = False\<rparr> [''a'', ''b''] empty_store [End])
     = [Do_help ''help'' [''machines'']] \<and>
   trace (do_machines ''machines'' \<lparr>opt_help = True, opt_json = False\<rparr> [''a'', ''b''] empty_store [End])
     \<noteq> [Callback (Some (Error ''too many args: a,b''))]"
  by (simp add: do_machines_def)

text \<open>
  C9, amended. Without the help option, each of \<open>do_machines\<close>, \<open>do_profile\<close> and
  \<open>do_dcs\<close> called with more than one positional argument does one thing only: it calls
  back with the error \<open>'too many args: ' + args\<close>. It reads no configuration, issues no
  query and leaves the store as it was.
\<close>

theorem too_many_args_without_help:
  assumes "\<not> opt_help opts" and "1 < length args"
  shows "do_machines subcmd opts args h evs =
           \<lparr>heap = h, machines = [], errs = [],
            trace = [Callback (Some (Error (''too many args: '' @ join_strings args)))]\<rparr> \<and>
         do_profile subcmd opts args this_sdc h brk =
           ([Callback (Some (Error (''too many args: '' @ join_strings args)))], h) \<and>
         do_dcs subcmd opts args this_sdc =
           [Callback (Some (Error (''too many args: '' @ join_strings args)))]"
  using assms by (simp add: do_machines_def do_profile_def do_dcs_def too_many_args_def)

theorem too_many_args_without_help_witness:
  "\<not> opt_help \<lparr>opt_help = False, opt_json = False\<rparr> \<and> 1 < length [''a'', ''b''] \<and>
   do_machines ''machines'' \<lparr>opt_help = False, opt_json = False\<rparr> [''a'', ''b''] empty_store [End] =
     \<lparr>heap = empty_store, machines = [], errs = [],
      trace = [Callback (Some (Error ''too many args: a,b''))]\<rparr> \<and>
   do_profile ''profile'' \<lparr>opt_help = False, opt_json = False\<rparr> [''a'', ''b'']
       \<lparr>profiles = [0], profile = 0, config_dcs = []\<rparr> empty_store 1 =
     ([Callback (Some (Error ''too many args: a,b''))], empty_store) \<and>
   do_dcs ''dcs'' \<lparr>opt_help = False, opt_json = False\<rparr> [''a'', ''b'']
       \<lparr>profiles = [0], profile = 0, config_dcs = []\<rparr> =
     [Callback (Some (Error ''too many args: a,b''))]"
proof -
  have h1: "\<not> opt_help \<lparr>opt_help = False, opt_json = False\<rparr>" by simp
  have h2: "1 < length [''a'', ''b'']" by simp
  show ?thesis
    using h1 h2 too_many_args_without_help [OF h1 h2, of "''machines''" empty_store "[End]"
        "\<lparr>profiles = [0], profile = 0, config_dcs = []\<rparr>" 1]
    by (simp add: do_profile_def do_dcs_def too_many_args_def)
qed

subsection \<open>\<open>do_profile\<close> leaves the stored profiles alone\<close>

lemma annotate_frame: "a \<notin> set profs \<Longrightarrow> fst (annotate cur profs h) a = h a"
proof (induction profs arbitrary: h)
  case Nil
  show ?case by simp
next
  case (Cons p profs)
  then have "a \<noteq> p" and "a \<notin> set profs" by auto
  then show ?case
    by (simp add: Let_def Cons.IH assign_def split: sum.splits)
qed

lemma do_profile_store:
  "snd (do_profile subcmd opts args this_sdc h brk) =
     (if opt_help opts \<or> 1 < length args then h
      else fst (annotate
                 (get_prop (fst (snd (deepObjCopy (profiles this_sdc) h brk)) (profile this_sdc)) ''name'')
                 (fst (deepObjCopy (profiles this_sdc) h brk))
                 (fst (snd (deepObjCopy (profiles this_sdc) h brk)))))"
  by (simp add: do_profile_def Let_def split: prod.splits option.splits)

lemma join_dcs_absent: "join_dcs None = Inr ''all''"
  by (simp add: join_dcs_def js_join_def)

lemma get_prop_other: "k \<noteq> k' \<Longrightarrow> get_prop (set_prop k v obj) k' = get_prop obj k'"
  by (simp add: get_prop_def set_prop_def update_conv')

lemma annotate_rows:
  assumes "distinct profs"
    and "\<forall>p \<in> set profs. annotated_profile cur (h p) = Inr (row p)"
  shows "snd (annotate cur profs h) = None \<and>
         (\<forall>p \<in> set profs. fst (annotate cur profs h) p = row p)"
  using assms
proof (induction profs arbitrary: h)
  case Nil
  show ?case by simp
next
  case (Cons p profs)
  let ?h1 = "assign p ''curr''
               (JString (if strict_eq (get_prop (h p) ''name'') cur then ''*'' else '' '')) h"
  from Cons.prems(2) have r: "annotated_profile cur (h p) = Inr (row p)" by simp
  then obtain joined where j: "join_dcs (get_prop (h p) ''dcs'') = Inr joined"
    by (auto simp: annotated_profile_def split: sum.splits)
  have j1: "join_dcs (get_prop (?h1 p) ''dcs'') = Inr joined"
    using j by (simp add: assign_def get_prop_other)
  let ?h2 = "assign p ''dcs'' (JString joined) ?h1"
  have rowp: "?h2 p = row p"
    using r j by (simp add: annotated_profile_def assign_def)
  have other: "?h2 q = h q" if "q \<noteq> p" for q
    using that by (simp add: assign_def)
  have step: "annotate cur (p # profs) h = annotate cur profs ?h2"
    using j1 by (simp add: Let_def)
  have "\<forall>q \<in> set profs. annotated_profile cur (?h2 q) = Inr (row q)"
  proof
    fix q
    assume q: "q \<in> set profs"
    then have "q \<noteq> p" using Cons.prems(1) by auto
    then have "?h2 q = h q" by (rule other)
    moreover have "annotated_profile cur (h q) = Inr (row q)" using q Cons.prems(2) by simp
    ultimately show "annotated_profile cur (?h2 q) = Inr (row q)" by (simp only:)
  qed
  with Cons.IH [of ?h2] Cons.prems(1)
  have ih: "snd (annotate cur profs ?h2) = None \<and>
            (\<forall>q \<in> set profs. fst (annotate cur profs ?h2) q = row q)"
    by simp
  have "fst (annotate cur profs ?h2) p = ?h2 p"
    using Cons.prems(1) by (simp add: annotate_frame)
  with ih rowp show ?case unfolding step by simp
qed

lemma do_profile_trace:
  assumes "\<not> opt_help opts" and "length args \<le> 1"
  shows "fst (do_profile subcmd opts args this_sdc h brk) =
     (case annotate
             (get_prop (fst (snd (deepObjCopy (profiles this_sdc) h brk)) (profile this_sdc)) ''name'')
             (fst (deepObjCopy (profiles this_sdc) h brk))
             (fst (snd (deepObjCopy (profiles this_sdc) h brk))) of
        (h2, Some e) \<Rightarrow> [Get_sdc, Get_sdc, Throw_TypeError]
      | (h2, None) \<Rightarrow>
          [Get_sdc, Get_sdc,
           render_profiles opts (map h2 (fst (deepObjCopy (profiles this_sdc) h brk))),
           Callback None])"
  using assms by (auto simp: do_profile_def Let_def split: prod.splits option.splits)

text \<open>
  C10. Every object that exists when \<open>do_profile\<close> is called, the stored profiles among
  them, has the same contents afterwards, whatever the options and arguments, and also
  when the command throws: the writes of \<open>curr\<close> and \<open>dcs\<close> go to the objects of the
  deep copy. What is rendered is the annotation of each stored profile, in order: with
  the \<open>curr\<close> marker added and \<open>dcs\<close> rewritten to the joined string (\<open>all\<close> when
  \<open>dcs\<close> is absent), provided no \<open>dcs\<close> makes \<open>join\<close> throw.
\<close>

theorem do_profile_annotates_copy:
  "(a < brk \<longrightarrow> snd (do_profile subcmd opts args this_sdc h brk) a = h a) \<and>
   (\<not> opt_help opts \<longrightarrow> length args \<le> 1 \<longrightarrow> profile this_sdc < brk \<longrightarrow>
    map (\<lambda>p. annotated_profile (get_prop (h (profile this_sdc)) ''name'') (h p)) (profiles this_sdc) =
      map Inr rows \<longrightarrow>
    fst (do_profile subcmd opts args this_sdc h brk) =
      [Get_sdc, Get_sdc, render_profiles opts rows, Callback None])"
proof (intro conjI impI)
  assume a: "a < brk"
  show "snd (do_profile subcmd opts args this_sdc h brk) a = h a"
  proof (cases "opt_help opts \<or> 1 < length args")
    case True
    then show ?thesis by (simp add: do_profile_store)
  next
    case False
    have fresh: "a \<notin> set (fst (deepObjCopy (profiles this_sdc) h brk))"
      using a by (simp add: deepObjCopy_def)
    have copy: "fst (snd (deepObjCopy (profiles this_sdc) h brk)) a = h a"
      using a by (simp add: deepObjCopy_def)
    show ?thesis
      using False by (simp add: do_profile_store annotate_frame [OF fresh] copy)
  qed
next
  let ?refs = "profiles this_sdc"
  let ?profs = "fst (deepObjCopy ?refs h brk)"
  let ?h1 = "fst (snd (deepObjCopy ?refs h brk))"
  let ?cur = "get_prop (h (profile this_sdc)) ''name''"
  assume nh: "\<not> opt_help opts" and na: "length args \<le> 1" and cp: "profile this_sdc < brk"
    and rows: "map (\<lambda>p. annotated_profile ?cur (h p)) ?refs = map Inr rows"
  have len: "length rows = length ?refs"
    using arg_cong [OF rows, of length] by simp
  have cur: "get_prop (?h1 (profile this_sdc)) ''name'' = ?cur"
    using cp by (simp add: deepObjCopy_def)
  have d: "distinct ?profs" by (simp add: deepObjCopy_def)
  have r: "\<forall>q \<in> set ?profs. annotated_profile ?cur (?h1 q) = Inr (rows ! (q - brk))"
  proof
    fix q
    assume "q \<in> set ?profs"
    then have q: "brk \<le> q" "q < brk + length ?refs" by (simp_all add: deepObjCopy_def)
    then have i: "q - brk < length ?refs" by simp
    have "?h1 q = h (?refs ! (q - brk))" using q by (simp add: deepObjCopy_def)
    moreover have "annotated_profile ?cur (h (?refs ! (q - brk))) = Inr (rows ! (q - brk))"
      using arg_cong [OF rows, of "\<lambda>xs. xs ! (q - brk)"] i len by simp
    ultimately show "annotated_profile ?cur (?h1 q) = Inr (rows ! (q - brk))" by simp
  qed
  from annotate_rows [OF d r]
  have n: "snd (annotate ?cur ?profs ?h1) = None"
    and f: "\<forall>q \<in> set ?profs. fst (annotate ?cur ?profs ?h1) q = rows ! (q - brk)"
    by simp_all
  have "map (fst (annotate ?cur ?profs ?h1)) ?profs = rows"
  proof (rule nth_equalityI)
    show "length (map (fst (annotate ?cur ?profs ?h1)) ?profs) = length rows"
      using len by (simp add: deepObjCopy_def)
  next
    fix i
    assume "i < length (map (fst (annotate ?cur ?profs ?h1)) ?profs)"
    then have i: "i < length ?refs" by (simp add: deepObjCopy_def)
    then have "?profs ! i = brk + i" by (simp add: deepObjCopy_def)
    moreover have "?profs ! i \<in> set ?profs" using i by (simp add: deepObjCopy_def)
    ultimately show "map (fst (annotate ?cur ?profs ?h1)) ?profs ! i = rows ! i"
      using f i by (simp add: deepObjCopy_def)
  qed
  then show "fst (do_profile subcmd opts args this_sdc h brk) =
      [Get_sdc, Get_sdc, render_profiles opts rows, Callback None]"
    using n by (auto simp: do_profile_trace [OF nh na] cur split: prod.splits)
qed

theorem do_profile_annotates_copy_witness:
  "(0 :: addr) < 2 \<and>
   \<not> opt_help \<lparr>opt_help = False, opt_json = True\<rparr> \<and> length ([] :: string list) \<le> 1 \<and>
   profile \<lparr>profiles = [0, 1], profile = 0, config_dcs = []\<rparr> < 2 \<and>
   map (\<lambda>p. annotated_profile (get_prop (example_profiles 0) ''name'') (example_profiles p)) [0, 1] =
     map Inr
       [[(''name'', JString ''env''), (''dcs'', JString ''us-west-1,us-east-1''),
         (''user'', JString ''bob''), (''curr'', JString ''*'')],
        [(''name'', JString ''dev''), (''user'', JString ''alice''),
         (''curr'', JString '' ''), (''dcs'', JString ''all'')]] \<and>
   snd (do_profile ''profile'' \<lparr>opt_help = False, opt_json = True\<rparr> []
          \<lparr>profiles = [0, 1], profile = 0, config_dcs = []\<rparr> example_profiles 2) 0 =
     [(''name'', JString ''env''),
      (''dcs'', JArray [JString ''us-west-1'', JString ''us-east-1'']),
      (''user'', JString ''bob'')] \<and>
   fst (do_profile ''profile'' \<lparr>opt_help = False, opt_json = True\<rparr> []
          \<lparr>profiles = [0, 1], profile = 0, config_dcs = []\<rparr> example_profiles 2) =
     [Get_sdc, Get_sdc,
      P_json [[(''name'', JString ''env''), (''dcs'', JString ''us-west-1,us-east-1''),
               (''user'', JString ''bob''), (''curr'', JString ''*'')],
              [(''name'', JString ''dev''), (''user'', JString ''alice''),
               (''curr'', JString '' ''), (''dcs'', JString ''all'')]],
      Callback None]"
proof -
  have h1: "(0 :: addr) < 2" by simp
  have h2: "\<not> opt_help \<lparr>opt_help = False, opt_json = True\<rparr>" by simp
  have h3: "length ([] :: string list) \<le> 1" by simp
  have h4: "profile \<lparr>profiles = [0, 1], profile = 0, config_dcs = []\<rparr> < 2" by simp
  have h5: "map (\<lambda>p. annotated_profile (get_prop (example_profiles 0) ''name'') (example_profiles p)) [0, 1] =
     map Inr
       [[(''name'', JString ''env''), (''dcs'', JString ''us-west-1,us-east-1''),
         (''user'', JString ''bob''), (''curr'', JString ''*'')],
        [(''name'', JString ''dev''), (''user'', JString ''alice''),
         (''curr'', JString '' ''), (''dcs'', JString ''all'')]]"
    by (simp add: annotated_profile_def example_profiles_def empty_store_def join_dcs_def js_join_def
        set_prop_def get_prop_def)
  have e: "example_profiles 0 =
     [(''name'', JString ''env''),
      (''dcs'', JArray [JString ''us-west-1'', JString ''us-east-1'']),
      (''user'', JString ''bob'')]"
    by (simp add: example_profiles_def)
  have r: "render_profiles \<lparr>opt_help = False, opt_json = True\<rparr> rows = P_json rows" for rows
    by (simp add: render_profiles_def)
  from h1 h2 h3 h4 h5
    do_profile_annotates_copy [of 0 2 "''profile''" "\<lparr>opt_help = False, opt_json = True\<rparr>" "[]"
      "\<lparr>profiles = [0, 1], profile = 0, config_dcs = []\<rparr>" example_profiles
      "[[(''name'', JString ''env''), (''dcs'', JString ''us-west-1,us-east-1''),
         (''user'', JString ''bob''), (''curr'', JString ''*'')],
        [(''name'', JString ''dev''), (''user'', JString ''alice''),
         (''curr'', JString '' ''), (''dcs'', JString ''all'')]]"]
  show ?thesis by (simp add: e r)
qed

end
